theory Spec2Isabelle
  imports Main "HOL-Library.Log_Nat"
begin

section \<open>Python floats (IEEE binary64)\<close>

text \<open>
  Coordinates and the grid step are Python floats. A finite double is modelled by the
  rational number it denotes; the two infinities and NaN are separate values. The sign
  of zero is not modelled (\<open>-0.0 == 0.0\<close> in Python, and the program never divides).
\<close>

datatype pyfloat = Finite rat | PosInf | NegInf | NaN

text \<open>\<open>ilog2 x\<close> is the binary exponent of a non-zero rational: \<open>2^e \<le> |x| < 2^(e+1)\<close>.\<close>

definition ilog2 :: "rat \<Rightarrow> int" where
  "ilog2 x =
     (let a = \<bar>x\<bar>;
          c = bitlen (fst (quotient_of a)) - bitlen (snd (quotient_of a))
      in if 2 powi c \<le> a then c else c - 1)"

text \<open>Round to the nearest integer, ties to the even one.\<close>

definition rhe :: "rat \<Rightarrow> int" where
  "rhe x =
     (let f = \<lfloor>x\<rfloor>; d = x - of_int f
      in if d < 1 / 2 then f
         else if 1 / 2 < d then f + 1
         else if even f then f else f + 1)"

text \<open>
  The spacing of the doubles around \<open>x\<close> is \<open>2^quantum x\<close>: 53 significant bits, and
  never finer than the subnormal spacing \<open>2^-1074\<close>.
\<close>

definition quantum :: "rat \<Rightarrow> int" where
  "quantum x = max (ilog2 x - 52) (- 1074)"

text \<open>
  The magnitude \<open>\<bar>x\<bar>\<close> rounded to the nearest multiple of the spacing, ties to the
  even multiple.
\<close>

definition round_mag :: "rat \<Rightarrow> rat" where
  "round_mag x = of_int (rhe (\<bar>x\<bar> / 2 powi quantum x)) * 2 powi quantum x"

text \<open>
  \<open>fl x\<close> is the double nearest to the exact value \<open>x\<close> (round to nearest, ties to
  even); a result of magnitude \<open>2^1024\<close> or more overflows to an infinity.
\<close>

definition fl :: "rat \<Rightarrow> pyfloat" where
  "fl x =
     (if x = 0 then Finite 0
      else if 2 powi 1024 \<le> round_mag x then (if 0 < x then PosInf else NegInf)
      else Finite (sgn x * round_mag x))"

text \<open>The values a float can have: a finite one is a double.\<close>

fun is_float :: "pyfloat \<Rightarrow> bool" where
  "is_float (Finite x) = (fl x = Finite x)"
| "is_float _ = True"

text \<open>\<open>a <= b\<close> on floats: every comparison with NaN is false.\<close>

fun py_le :: "pyfloat \<Rightarrow> pyfloat \<Rightarrow> bool" where
  "py_le NaN _ = False"
| "py_le _ NaN = False"
| "py_le NegInf _ = True"
| "py_le _ PosInf = True"
| "py_le (Finite x) (Finite y) = (x \<le> y)"
| "py_le _ _ = False"

fun py_lt :: "pyfloat \<Rightarrow> pyfloat \<Rightarrow> bool" where
  "py_lt NaN _ = False"
| "py_lt _ NaN = False"
| "py_lt PosInf _ = False"
| "py_lt _ NegInf = False"
| "py_lt (Finite x) (Finite y) = (x < y)"
| "py_lt _ _ = True"

text \<open>\<open>a + b\<close> on floats: the exact sum, rounded once.\<close>

fun py_add :: "pyfloat \<Rightarrow> pyfloat \<Rightarrow> pyfloat" where
  "py_add NaN _ = NaN"
| "py_add _ NaN = NaN"
| "py_add PosInf NegInf = NaN"
| "py_add NegInf PosInf = NaN"
| "py_add PosInf _ = PosInf"
| "py_add _ PosInf = PosInf"
| "py_add NegInf _ = NegInf"
| "py_add _ NegInf = NegInf"
| "py_add (Finite x) (Finite y) = fl (x + y)"

text \<open>
  \<open>round(x, 4)\<close>: a non-finite float is returned as it is; a finite one is rounded, on
  its exact value and ties to even, to a multiple of \<open>10^-4\<close>, and the double nearest to
  that decimal is returned.
\<close>

fun py_round4 :: "pyfloat \<Rightarrow> pyfloat" where
  "py_round4 (Finite x) = fl (of_int (rhe (x * 10000)) / 10000)"
| "py_round4 f = f"

section \<open>The grid\<close>

record bbox =
  min_lat :: pyfloat
  max_lat :: pyfloat
  min_lon :: pyfloat
  max_lon :: pyfloat

type_synonym point = "pyfloat \<times> pyfloat"

text \<open>
  The inner \<open>while lon <= bbox["max_lon"]\<close> of \<open>generate_grid\<close>, with the list
  \<open>points\<close> it appends to. A loop that never ends is the value \<open>None\<close>.
\<close>

partial_function (option) lon_loop ::
  "bbox \<Rightarrow> pyfloat \<Rightarrow> pyfloat \<Rightarrow> pyfloat \<Rightarrow> point list \<Rightarrow> point list option" where
  "lon_loop b step lat lon points =
     (if py_le lon (max_lon b)
      then lon_loop b step lat (py_add lon step) (points @ [(py_round4 lat, py_round4 lon)])
      else Some points)"

text \<open>The outer \<open>while lat <= bbox["max_lat"]\<close>.\<close>

partial_function (option) lat_loop ::
  "bbox \<Rightarrow> pyfloat \<Rightarrow> pyfloat \<Rightarrow> point list \<Rightarrow> point list option" where
  "lat_loop b step lat points =
     (if py_le lat (max_lat b)
      then Option.bind (lon_loop b step lat (min_lon b) points)
             (\<lambda>points'. lat_loop b step (py_add lat step) points')
      else Some points)"

definition generate_grid :: "bbox \<Rightarrow> pyfloat \<Rightarrow> point list option" where
  "generate_grid b step = lat_loop b step (min_lat b) []"

section \<open>Configuration\<close>

definition CATEGORY :: string where
  "CATEGORY = ''stationery''"

definition RADIUS :: nat where
  "RADIUS = 20"

text \<open>The literal \<open>0.3\<close> is the double nearest to three tenths.\<close>

definition GRID_STEP :: pyfloat where
  "GRID_STEP = fl (3 / 10)"

definition STATES :: "string list" where
  "STATES = [''Tamil Nadu'', ''Karnataka'']"

section \<open>Values decoded from JSON, and the Python operations on them\<close>

text \<open>
  What \<open>response.json()\<close> returns. A JSON object becomes a dict, here the list of
  its items in order, with distinct keys; JSON \<open>null\<close> is Python's \<open>None\<close>.
\<close>

datatype json =
    JNull
  | JBool bool
  | JInt int
  | JFloat pyfloat
  | JStr string
  | JList "json list"
  | JDict "(string \<times> json) list"

datatype exn =
    RequestException
  | JSONDecodeError
  | AttributeError
  | TypeError
  | KeyError
  | IndexError
  | ValueError
  | OverflowError
  | SMTPException

text \<open>Truth value of an object, as \<open>if not data\<close> tests it.\<close>

fun truthy :: "json \<Rightarrow> bool" where
  "truthy JNull = False"
| "truthy (JBool b) = b"
| "truthy (JInt n) = (n \<noteq> 0)"
| "truthy (JFloat f) = (f \<noteq> Finite 0)"
| "truthy (JStr s) = (s \<noteq> [])"
| "truthy (JList xs) = (xs \<noteq> [])"
| "truthy (JDict kvs) = (kvs \<noteq> [])"

text \<open>\<open>x[i]\<close> for a literal index \<open>i \<ge> 0\<close>.\<close>

fun item_int :: "json \<Rightarrow> nat \<Rightarrow> exn + json" where
  "item_int (JList xs) i = (if i < length xs then Inr (xs ! i) else Inl IndexError)"
| "item_int (JStr s) i = (if i < length s then Inr (JStr [s ! i]) else Inl IndexError)"
| "item_int (JDict kvs) i = Inl KeyError"
| "item_int _ i = Inl TypeError"

text \<open>\<open>x["key"]\<close>.\<close>

fun item_str :: "json \<Rightarrow> string \<Rightarrow> exn + json" where
  "item_str (JDict kvs) k = (case map_of kvs k of None \<Rightarrow> Inl KeyError | Some v \<Rightarrow> Inr v)"
| "item_str _ k = Inl TypeError"

text \<open>\<open>x.get("key", default)\<close>: only a dict has the method.\<close>

fun py_get :: "json \<Rightarrow> string \<Rightarrow> json \<Rightarrow> exn + json" where
  "py_get (JDict kvs) k dflt = Inr (case map_of kvs k of None \<Rightarrow> dflt | Some v \<Rightarrow> v)"
| "py_get _ k dflt = Inl AttributeError"

text \<open>The elements a \<open>for\<close> loop draws from an object: a dict gives its keys, a string its characters.\<close>

fun py_iter :: "json \<Rightarrow> exn + json list" where
  "py_iter (JList xs) = Inr xs"
| "py_iter (JDict kvs) = Inr (map (\<lambda>kv. JStr (fst kv)) kvs)"
| "py_iter (JStr s) = Inr (map (\<lambda>c. JStr [c]) s)"
| "py_iter _ = Inl TypeError"

text \<open>
  \<open>float(x)\<close>. How Python reads a string as a float is a parameter \<open>parse\<close>
  (\<open>None\<close>: the string is not a number, ValueError).
\<close>

fun py_float :: "(string \<Rightarrow> pyfloat option) \<Rightarrow> json \<Rightarrow> exn + pyfloat" where
  "py_float parse (JStr s) = (case parse s of None \<Rightarrow> Inl ValueError | Some f \<Rightarrow> Inr f)"
| "py_float parse (JFloat f) = Inr f"
| "py_float parse (JInt n) =
     (case fl (of_int n) of Finite r \<Rightarrow> Inr (Finite r) | _ \<Rightarrow> Inl OverflowError)"
| "py_float parse (JBool b) = Inr (Finite (if b then 1 else 0))"
| "py_float parse _ = Inl TypeError"

section \<open>The outside world\<close>

text \<open>
  An HTTP request either raises (connection failure, timeout) or returns a response with
  a status code and a body; the body is given by what \<open>response.json()\<close> makes of it,
  \<open>None\<close> when it is not JSON.
\<close>

datatype http_reply = NetworkFailure | Reply nat "json option"

record row =
  state :: string
  scan_lat :: pyfloat
  scan_lon :: pyfloat
  business_name :: json
  category :: json
  address :: json
  phone :: json
  business_lat :: json
  business_lon :: json

text \<open>
  The services the program talks to. \<open>geocoder k q\<close> answers the lookup of the
  \<open>k\<close>-th region of the run with query \<open>q\<close>; \<open>directory k i lat lon cat radius\<close>
  answers the \<open>i\<close>-th fetch of that region; \<open>smtp k name rows\<close> tells whether the
  report of that region is delivered.
\<close>

record world =
  geocoder :: "nat \<Rightarrow> string \<Rightarrow> http_reply"
  directory :: "nat \<Rightarrow> nat \<Rightarrow> pyfloat \<Rightarrow> pyfloat \<Rightarrow> string \<Rightarrow> nat \<Rightarrow> http_reply"
  smtp :: "nat \<Rightarrow> string \<Rightarrow> row list \<Rightarrow> bool"
  float_of_str :: "string \<Rightarrow> pyfloat option"

text \<open>
  What the worker does that can be observed, in order: each \<open>print\<close> (with its
  arguments, not the formatted text), each HTTP request, each \<open>time.sleep\<close> with its
  duration in seconds, and each call of \<open>send_email\<close> (\<open>EmailSend\<close>, whether the
  delivery succeeds or not).
\<close>

datatype event =
    PrintProcessing string
  | GeoRequest string
  | PrintNoBBox
  | PrintGridPoints nat
  | PrintProgress string nat nat pyfloat pyfloat
  | ApiRequest pyfloat pyfloat string nat
  | PrintError exn
  | Sleep rat
  | EmailSend string "row list"
  | PrintEmailSent string
  | PrintNoData string
  | PrintAllCompleted

text \<open>Sequencing: an exception raised by the first step is the result.\<close>

definition and_then :: "exn + 'a \<Rightarrow> ('a \<Rightarrow> exn + 'b) \<Rightarrow> exn + 'b" where
  "and_then r f = (case r of Inl e \<Rightarrow> Inl e | Inr v \<Rightarrow> f v)"

section \<open>Resolving a region\<close>

text \<open>\<open>get_state_bbox\<close>: nothing is caught, and no status code is looked at.\<close>

definition get_state_bbox :: "world \<Rightarrow> nat \<Rightarrow> string \<Rightarrow> exn + bbox option" where
  "get_state_bbox w k state_name =
     (case geocoder w k (state_name @ '', India'') of
        NetworkFailure \<Rightarrow> Inl RequestException
      | Reply status body \<Rightarrow>
          (case body of
             None \<Rightarrow> Inl JSONDecodeError
           | Some data \<Rightarrow>
               if \<not> truthy data then Inr None
               else
                 and_then (item_int data 0) (\<lambda>d0.
                 and_then (item_str d0 ''boundingbox'') (\<lambda>bb.
                 and_then (item_int bb 0) (\<lambda>b0.
                 and_then (py_float (float_of_str w) b0) (\<lambda>f0.
                 and_then (item_int bb 1) (\<lambda>b1.
                 and_then (py_float (float_of_str w) b1) (\<lambda>f1.
                 and_then (item_int bb 2) (\<lambda>b2.
                 and_then (py_float (float_of_str w) b2) (\<lambda>f2.
                 and_then (item_int bb 3) (\<lambda>b3.
                 and_then (py_float (float_of_str w) b3) (\<lambda>f3.
                 Inr (Some \<lparr>min_lat = f0, max_lat = f1,
                            min_lon = f2, max_lon = f3\<rparr>)))))))))))))"

section \<open>Fetching at one point\<close>

text \<open>\<open>fetch_businesses\<close>: the request may raise, and so may \<open>response.json()\<close>.\<close>

definition fetch_businesses :: "world \<Rightarrow> nat \<Rightarrow> nat \<Rightarrow> pyfloat \<Rightarrow> pyfloat \<Rightarrow> exn + json" where
  "fetch_businesses w k i lat lon =
     (case directory w k i lat lon CATEGORY RADIUS of
        NetworkFailure \<Rightarrow> Inl RequestException
      | Reply status body \<Rightarrow>
          (case body of None \<Rightarrow> Inl JSONDecodeError | Some data \<Rightarrow> Inr data))"

section \<open>The scan worker\<close>

text \<open>\<open>biz.get(key)\<close> on an entry that is a dict: \<open>None\<close> when the key is missing.\<close>

definition field :: "(string \<times> json) list \<Rightarrow> string \<Rightarrow> json" where
  "field kvs k = (case map_of kvs k of None \<Rightarrow> JNull | Some v \<Rightarrow> v)"

definition make_row :: "string \<Rightarrow> pyfloat \<Rightarrow> pyfloat \<Rightarrow> (string \<times> json) list \<Rightarrow> row" where
  "make_row state_name lat lon biz =
     \<lparr>state = state_name, scan_lat = lat, scan_lon = lon,
      business_name = field biz ''name'', category = field biz ''category'',
      address = field biz ''address'', phone = field biz ''phone'',
      business_lat = field biz ''lat'', business_lon = field biz ''long''\<rparr>"

text \<open>
  The loop \<open>for biz in ...: rows.append(...)\<close>. An entry that is not a dict has no
  \<open>get\<close>: the loop stops there with AttributeError, and the rows appended so far stay.
\<close>

fun append_rows ::
  "string \<Rightarrow> pyfloat \<Rightarrow> pyfloat \<Rightarrow> json list \<Rightarrow> row list \<Rightarrow> row list \<times> exn option" where
  "append_rows state_name lat lon [] rows = (rows, None)"
| "append_rows state_name lat lon (JDict biz # rest) rows =
     append_rows state_name lat lon rest (rows @ [make_row state_name lat lon biz])"
| "append_rows state_name lat lon (_ # rest) rows = (rows, Some AttributeError)"

text \<open>What the \<open>try\<close> block does with the decoded response.\<close>

definition collect ::
  "string \<Rightarrow> pyfloat \<Rightarrow> pyfloat \<Rightarrow> json \<Rightarrow> row list \<Rightarrow> row list \<times> exn option" where
  "collect state_name lat lon data rows =
     (case py_get data ''data'' (JList []) of
        Inl e \<Rightarrow> (rows, Some e)
      | Inr v \<Rightarrow>
          (case py_iter v of
             Inl e \<Rightarrow> (rows, Some e)
           | Inr entries \<Rightarrow> append_rows state_name lat lon entries rows))"

text \<open>The whole \<open>try\<close> block at one point: the rows afterwards, and the exception caught, if any.\<close>

definition try_point ::
  "world \<Rightarrow> nat \<Rightarrow> string \<Rightarrow> nat \<Rightarrow> point \<Rightarrow> row list \<Rightarrow> row list \<times> exn option" where
  "try_point w k state_name i p rows =
     (case fetch_businesses w k i (fst p) (snd p) of
        Inl e \<Rightarrow> (rows, Some e)
      | Inr data \<Rightarrow> collect state_name (fst p) (snd p) data rows)"

text \<open>
  The loop \<open>for i, (lat, lon) in enumerate(grid_points)\<close>; \<open>n\<close> is
  \<open>len(grid_points)\<close> and \<open>i\<close> the index of the first point of \<open>ps\<close>.
\<close>

fun scan_points ::
  "world \<Rightarrow> nat \<Rightarrow> string \<Rightarrow> nat \<Rightarrow> nat \<Rightarrow> point list \<Rightarrow> row list \<Rightarrow> row list \<times> event list" where
  "scan_points w k state_name n i [] rows = (rows, [])"
| "scan_points w k state_name n i (p # ps) rows =
     (let r = try_point w k state_name i p rows;
          evs = [PrintProgress state_name (i + 1) n (fst p) (snd p),
                 ApiRequest (fst p) (snd p) CATEGORY RADIUS]
                @ (case snd r of None \<Rightarrow> [] | Some e \<Rightarrow> [PrintError e])
                @ [Sleep (2 / 5)];
          r' = scan_points w k state_name n (i + 1) ps (fst r)
      in (fst r', evs @ snd r'))"

text \<open>
  The end of a region: \<open>if rows: send_email(...)\<close>. A delivery that fails raises out
  of \<open>send_email\<close>, and nothing catches it.
\<close>

definition report :: "world \<Rightarrow> nat \<Rightarrow> string \<Rightarrow> row list \<Rightarrow> event list \<times> exn option" where
  "report w k state_name rows =
     (if rows \<noteq> [] then
        (if smtp w k state_name rows
         then ([EmailSend state_name rows, PrintEmailSent state_name], None)
         else ([EmailSend state_name rows], Some SMTPException))
      else ([PrintNoData state_name], None))"

text \<open>
  One turn of \<open>for state_name in STATES\<close>. The result is \<open>None\<close> when the turn never
  ends; otherwise the events, and the exception that leaves the turn, if any.
\<close>

definition run_state :: "world \<Rightarrow> nat \<Rightarrow> string \<Rightarrow> (event list \<times> exn option) option" where
  "run_state w k state_name =
     (let evs0 = [PrintProcessing state_name, GeoRequest (state_name @ '', India'')] in
      case get_state_bbox w k state_name of
        Inl e \<Rightarrow> Some (evs0, Some e)
      | Inr None \<Rightarrow> Some (evs0 @ [PrintNoBBox], None)
      | Inr (Some b) \<Rightarrow>
          (case generate_grid b GRID_STEP of
             None \<Rightarrow> None
           | Some grid_points \<Rightarrow>
               (let sc = scan_points w k state_name (length grid_points) 0 grid_points [];
                    rp = report w k state_name (fst sc)
                in Some (evs0 @ [PrintGridPoints (length grid_points)] @ snd sc @ fst rp,
                         snd rp))))"

text \<open>The loop over the regions: an exception that leaves a turn leaves the loop.\<close>

fun run_states :: "world \<Rightarrow> nat \<Rightarrow> string list \<Rightarrow> (event list \<times> exn option) option" where
  "run_states w k [] = Some ([PrintAllCompleted], None)"
| "run_states w k (s # ss) =
     (case run_state w k s of
        None \<Rightarrow> None
      | Some (evs, Some e) \<Rightarrow> Some (evs, Some e)
      | Some (evs, None) \<Rightarrow>
          (case run_states w (k + 1) ss of
             None \<Rightarrow> None
           | Some (evs', r) \<Rightarrow> Some (evs @ evs', r)))"

definition run_scrape :: "world \<Rightarrow> (event list \<times> exn option) option" where
  "run_scrape w = run_states w 0 STATES"

section \<open>Notions used in the statements\<close>

text \<open>The events that pace the scan: a request to the directory, and a pause.\<close>

definition pacing :: "event \<Rightarrow> bool" where
  "pacing ev = (case ev of ApiRequest _ _ _ _ \<Rightarrow> True | Sleep _ \<Rightarrow> True | _ \<Rightarrow> False)"

text \<open>
  The values a loop variable takes: starting at \<open>x\<close>, adding \<open>step\<close>, as long as
  the value is at most \<open>hi\<close>. The list is finite: a loop that never ends has none.
\<close>

inductive sweeps :: "pyfloat \<Rightarrow> pyfloat \<Rightarrow> pyfloat \<Rightarrow> pyfloat list \<Rightarrow> bool"
  for hi :: pyfloat and step :: pyfloat where
  stop: "\<not> py_le x hi \<Longrightarrow> sweeps hi step x []"
| more: "py_le x hi \<Longrightarrow> sweeps hi step (py_add x step) xs \<Longrightarrow> sweeps hi step x (x # xs)"

text \<open>The points of the rows \<open>lats\<close> and the columns \<open>lons\<close>, row by row.\<close>

definition product_grid :: "pyfloat list \<Rightarrow> pyfloat list \<Rightarrow> point list" where
  "product_grid lats lons =
     concat (map (\<lambda>lat. map (\<lambda>lon. (py_round4 lat, py_round4 lon)) lons) lats)"

text \<open>
  The step is not absorbed between \<open>lo\<close> and \<open>hi\<close>: adding it to a float of that
  range gives a larger float.
\<close>

definition no_absorption :: "pyfloat \<Rightarrow> pyfloat \<Rightarrow> pyfloat \<Rightarrow> bool" where
  "no_absorption lo hi step =
     (\<forall>x. is_float x \<and> py_le lo x \<and> py_le x hi \<longrightarrow> py_lt x (py_add x step))"

text \<open>
  \<open>r\<close> is \<open>x\<close> rounded to 4 decimal digits: the double nearest to a multiple of
  \<open>10^-4\<close> that is within \<open>0.00005\<close> of \<open>x\<close>.
\<close>

definition rounds_to :: "pyfloat \<Rightarrow> pyfloat \<Rightarrow> bool" where
  "rounds_to x r =
     (case x of
        Finite a \<Rightarrow> \<exists>k :: int. r = fl (of_int k / 10000) \<and> \<bar>of_int k / 10000 - a\<bar> \<le> 1 / 20000
      | _ \<Rightarrow> r = x)"


text \<open>The requests to the directory among the events.\<close>

definition is_request :: "event \<Rightarrow> bool" where
  "is_request ev = (case ev of ApiRequest _ _ _ _ \<Rightarrow> True | _ \<Rightarrow> False)"



subsection \<open>Concrete worlds\<close>

text \<open>What \<open>float\<close> makes of the few strings the example replies use.\<close>

definition float_table :: "string \<Rightarrow> pyfloat option" where
  "float_table s =
     (if s = ''8.0'' then Some (Finite 8)
      else if s = ''8.3'' then Some (Finite (2336242306698445 / 281474976710656))
      else if s = ''76.0'' then Some (Finite 76)
      else if s = ''76.3'' then Some (Finite (5369135180755763 / 70368744177664))
      else None)"

definition geo_body :: "string list \<Rightarrow> json" where
  "geo_body bounds = JList [JDict [(''boundingbox'', JList (map JStr bounds))]]"

definition shop_body :: json where
  "shop_body = JDict [(''data'', JList [JDict [(''name'', JStr ''Shop'')]])]"

text \<open>The directory answers every request with status 500 and a JSON error object.\<close>

definition world_status_500 :: world where
  "world_status_500 =
     \<lparr>geocoder = (\<lambda>k q. Reply 200 (Some (geo_body [''8.0'', ''8.0'', ''76.0'', ''76.0'']))),
      directory = (\<lambda>k i lat lon cat radius.
                     Reply 500 (Some (JDict [(''error'', JStr ''Internal Server Error'')]))),
      smtp = (\<lambda>k name rows. True),
      float_of_str = float_table\<rparr>"

text \<open>The directory answers every request with \<open>{"data": null}\<close>.\<close>

definition world_data_null :: world where
  "world_data_null =
     \<lparr>geocoder = (\<lambda>k q. Reply 200 (Some (geo_body [''8.0'', ''8.0'', ''76.0'', ''76.0'']))),
      directory = (\<lambda>k i lat lon cat radius. Reply 200 (Some (JDict [(''data'', JNull)]))),
      smtp = (\<lambda>k name rows. True),
      float_of_str = float_table\<rparr>"

text \<open>The geocoder cannot be reached when the first region is looked up.\<close>

definition world_geocoder_down :: world where
  "world_geocoder_down =
     \<lparr>geocoder = (\<lambda>k q. if k = 0 then NetworkFailure
                          else Reply 200 (Some (geo_body [''8.0'', ''8.0'', ''76.0'', ''76.0'']))),
      directory = (\<lambda>k i lat lon cat radius. Reply 200 (Some shop_body)),
      smtp = (\<lambda>k name rows. True),
      float_of_str = float_table\<rparr>"

text \<open>Every region has one grid point and one shop; no report can be delivered.\<close>

definition world_smtp_down :: world where
  "world_smtp_down =
     \<lparr>geocoder = (\<lambda>k q. Reply 200 (Some (geo_body [''8.0'', ''8.0'', ''76.0'', ''76.0'']))),
      directory = (\<lambda>k i lat lon cat radius. Reply 200 (Some shop_body)),
      smtp = (\<lambda>k name rows. False),
      float_of_str = float_table\<rparr>"


text \<open>The geocoder answers with a box whose latitudes are inverted.\<close>

definition world_inverted :: world where
  "world_inverted =
     \<lparr>geocoder = (\<lambda>k q. Reply 200 (Some (geo_body [''8.3'', ''8.0'', ''76.0'', ''76.3'']))),
      directory = (\<lambda>k i lat lon cat radius. Reply 200 (Some shop_body)),
      smtp = (\<lambda>k name rows. True),
      float_of_str = float_table\<rparr>"

section \<open>Facts about rounding\<close>

subsection \<open>The binary exponent\<close>

lemma bitlen_powi_bounds:
  assumes "0 < p"
  shows "(2::rat) powi (bitlen p - 1) \<le> of_int p" and "of_int p < (2::rat) powi bitlen p"
proof -
  have b: "bitlen p \<ge> 1" using assms by (simp add: bitlen_alt_def)
  from bitlen_bounds[OF assms] have l: "2 ^ nat (bitlen p - 1) \<le> p" and u: "p < 2 ^ nat (bitlen p)"
    by auto
  have "(2::rat) powi (bitlen p - 1) = 2 ^ nat (bitlen p - 1)"
    using b by (simp add: power_int_def)
  also have "\<dots> = of_int (2 ^ nat (bitlen p - 1))" by simp
  also have "\<dots> \<le> of_int p" using l by (simp only: of_int_le_iff)
  finally show "(2::rat) powi (bitlen p - 1) \<le> of_int p" .
  have "of_int p < (of_int (2 ^ nat (bitlen p)) :: rat)" using u by (simp only: of_int_less_iff)
  also have "\<dots> = 2 ^ nat (bitlen p)" by simp
  also have "\<dots> = (2::rat) powi bitlen p"
    using b by (simp add: power_int_def)
  finally show "of_int p < (2::rat) powi bitlen p" .
qed

lemma ilog2_bounds:
  assumes "x \<noteq> 0"
  shows "2 powi ilog2 x \<le> \<bar>x\<bar>" and "\<bar>x\<bar> < 2 powi (ilog2 x + 1)"
proof -
  define a where "a = \<bar>x\<bar>"
  obtain p q where pq: "quotient_of a = (p, q)" by (cases "quotient_of a")
  have a0: "0 < a" using assms by (simp add: a_def)
  have q0: "0 < q" using pq by (rule quotient_of_denom_pos)
  have aq: "a = of_int p / of_int q" using pq by (rule quotient_of_div)
  have p0: "0 < p" using a0 q0 aq by (simp add: zero_less_divide_iff)
  define c where "c = bitlen p - bitlen q"
  note P = bitlen_powi_bounds[OF p0] and Q = bitlen_powi_bounds[OF q0]
  have up: "a < (2::rat) powi (c + 1)"
  proof -
    have "a * of_int q = of_int p" using aq q0 by simp
    also have "\<dots> < 2 powi bitlen p" by (rule P(2))
    also have "\<dots> = 2 powi (c + 1) * 2 powi (bitlen q - 1)"
      by (simp add: c_def power_int_add[symmetric])
    also have "\<dots> \<le> 2 powi (c + 1) * of_int q"
      using Q(1) by (simp add: mult_left_mono)
    finally show ?thesis using q0 by simp
  qed
  have lo: "(2::rat) powi (c - 1) < a"
  proof -
    have "(2::rat) powi (c - 1) * of_int q < 2 powi (c - 1) * 2 powi bitlen q"
      using Q(2) by (simp add: mult_strict_left_mono)
    also have "\<dots> = 2 powi (bitlen p - 1)"
      by (simp add: c_def power_int_add[symmetric])
    also have "\<dots> \<le> of_int p" by (rule P(1))
    also have "\<dots> = a * of_int q" using aq q0 by simp
    finally show ?thesis using q0 by simp
  qed
  have il: "ilog2 x = (if 2 powi c \<le> a then c else c - 1)"
    by (simp add: ilog2_def Let_def a_def[symmetric] pq c_def)
  show "2 powi ilog2 x \<le> \<bar>x\<bar>"
    using lo by (simp add: il a_def[symmetric])
  show "\<bar>x\<bar> < 2 powi (ilog2 x + 1)"
    using up by (simp add: il a_def[symmetric] not_le)
qed

lemma pow2_less_iff: "(2::rat) powi m < 2 powi n \<longleftrightarrow> m < n"
proof
  assume l: "(2::rat) powi m < 2 powi n"
  show "m < n"
  proof (rule ccontr)
    assume "\<not> m < n"
    then have "n \<le> m" by simp
    then have "(2::rat) powi n \<le> 2 powi m" by (rule power_int_increasing) simp
    with l show False by linarith
  qed
next
  assume "m < n"
  then show "(2::rat) powi m < 2 powi n" by (rule power_int_strict_increasing) simp
qed

lemma pow2_le_iff: "(2::rat) powi m \<le> 2 powi n \<longleftrightarrow> m \<le> n"
  using pow2_less_iff[of n m] by (auto simp: not_less[symmetric])

lemma ilog2_unique:
  assumes "2 powi e \<le> \<bar>x\<bar>" and "\<bar>x\<bar> < 2 powi (e + 1)"
  shows "ilog2 x = e"
proof -
  have pos: "(0::rat) < 2 powi e" by simp
  have x0: "x \<noteq> 0"
  proof
    assume "x = 0"
    with assms(1) have "(2::rat) powi e \<le> 0" by simp
    with pos show False by linarith
  qed
  note B = ilog2_bounds[OF x0]
  have "(2::rat) powi e < 2 powi (ilog2 x + 1)" using assms(1) B(2) by simp
  then have 1: "e < ilog2 x + 1" by (simp only: pow2_less_iff)
  have "(2::rat) powi ilog2 x < 2 powi (e + 1)" using assms(2) B(1) by simp
  then have 2: "ilog2 x < e + 1" by (simp only: pow2_less_iff)
  from 1 2 show ?thesis by simp
qed


subsection \<open>Rounding to an integer\<close>

lemma rhe_of_int [simp]: "rhe (of_int n) = n"
  by (simp add: rhe_def)

lemma rhe_floor_bounds: "\<lfloor>x\<rfloor> \<le> rhe x" "rhe x \<le> \<lfloor>x\<rfloor> + 1"
  by (simp_all add: rhe_def Let_def)

lemma rhe_error: "\<bar>of_int (rhe x) - x\<bar> \<le> 1 / 2"
proof -
  define d where "d = x - of_int \<lfloor>x\<rfloor>"
  have d: "0 \<le> d" "d < 1" unfolding d_def by linarith+
  have x: "x = of_int \<lfloor>x\<rfloor> + d" by (simp add: d_def)
  have r: "rhe x = (if d < 1 / 2 then \<lfloor>x\<rfloor> else if 1 / 2 < d then \<lfloor>x\<rfloor> + 1
                    else if even \<lfloor>x\<rfloor> then \<lfloor>x\<rfloor> else \<lfloor>x\<rfloor> + 1)"
    unfolding rhe_def Let_def d_def by (rule refl)
  have "(rhe x = \<lfloor>x\<rfloor> \<and> d \<le> 1 / 2) \<or> (rhe x = \<lfloor>x\<rfloor> + 1 \<and> 1 / 2 \<le> d)"
    unfolding r by (cases "d < 1 / 2"; cases "1 / 2 < d"; cases "even \<lfloor>x\<rfloor>") simp_all
  then show ?thesis
  proof
    assume 1: "rhe x = \<lfloor>x\<rfloor> \<and> d \<le> 1 / 2"
    have "of_int (rhe x) - x = - d" using x 1 by simp
    with d 1 show ?thesis by simp
  next
    assume 2: "rhe x = \<lfloor>x\<rfloor> + 1 \<and> 1 / 2 \<le> d"
    have "of_int (rhe x) - x = 1 - d" using x 2 by simp
    with d 2 show ?thesis by simp
  qed
qed

lemma rhe_mono:
  assumes "x \<le> y"
  shows "rhe x \<le> rhe y"
proof (cases "\<lfloor>x\<rfloor> = \<lfloor>y\<rfloor>")
  case True
  with assms show ?thesis
    by (auto simp add: rhe_def Let_def)
next
  case False
  with assms have "\<lfloor>x\<rfloor> < \<lfloor>y\<rfloor>" using floor_mono[OF assms] by linarith
  then have "rhe x \<le> \<lfloor>y\<rfloor>" using rhe_floor_bounds(2)[of x] by linarith
  also have "\<dots> \<le> rhe y" by (rule rhe_floor_bounds(1))
  finally show ?thesis .
qed

lemma rhe_zero [simp]: "rhe 0 = 0"
  by (simp add: rhe_def)

lemma rhe_nonneg: "0 \<le> x \<Longrightarrow> 0 \<le> rhe x"
  using rhe_mono[of 0 x] by simp


subsection \<open>Rounding to a multiple of a power of two\<close>

lemma pow2_pos [simp]: "(0::rat) < 2 powi q"
  by simp

lemma pow2_split: "q \<le> m \<Longrightarrow> (2::rat) powi m = of_int (2 ^ nat (m - q)) * 2 powi q"
proof -
  assume "q \<le> m"
  then have "(2::rat) powi (m - q) = 2 ^ nat (m - q)" by (simp add: power_int_def)
  moreover have "(2::rat) powi m = 2 powi (m - q) * 2 powi q"
    by (simp add: power_int_add[symmetric])
  ultimately show ?thesis by simp
qed

lemma grid_lower:
  assumes "of_int k * 2 powi q \<le> (a::rat)"
  shows "of_int k * 2 powi q \<le> (of_int (rhe (a / 2 powi q)) * 2 powi q :: rat)"
proof -
  have "of_int k \<le> a / 2 powi q" using assms by (simp add: pos_le_divide_eq)
  then have "rhe (of_int k) \<le> rhe (a / 2 powi q)" by (rule rhe_mono)
  then have "k \<le> rhe (a / 2 powi q)" by simp
  then have "(of_int k :: rat) \<le> of_int (rhe (a / 2 powi q))" by (simp only: of_int_le_iff)
  then show ?thesis by (simp add: mult_right_mono)
qed

lemma grid_upper:
  assumes "(a::rat) \<le> of_int k * 2 powi q"
  shows "of_int (rhe (a / 2 powi q)) * 2 powi q \<le> (of_int k * 2 powi q :: rat)"
proof -
  have "a / 2 powi q \<le> of_int k" using assms by (simp add: pos_divide_le_eq)
  then have "rhe (a / 2 powi q) \<le> rhe (of_int k)" by (rule rhe_mono)
  then have "rhe (a / 2 powi q) \<le> k" by simp
  then have "(of_int (rhe (a / 2 powi q)) :: rat) \<le> of_int k" by (simp only: of_int_le_iff)
  then show ?thesis by (simp add: mult_right_mono)
qed

lemma grid_fixed:
  assumes "q' \<le> q"
  shows "of_int (rhe ((of_int k * 2 powi q) / 2 powi q')) * 2 powi q' = (of_int k * 2 powi q :: rat)"
proof -
  have s: "(2::rat) powi q = of_int (2 ^ nat (q - q')) * 2 powi q'"
    using assms by (rule pow2_split)
  have "(of_int k * 2 powi q) / 2 powi q' = (of_int (k * 2 ^ nat (q - q')) :: rat)"
    by (subst s) simp
  then have "rhe ((of_int k * 2 powi q) / 2 powi q') = k * 2 ^ nat (q - q')"
    by (simp only: rhe_of_int)
  then show ?thesis by (subst (2) s) simp
qed

lemma quantum_ge: "- 1074 \<le> quantum x"
  by (simp add: quantum_def)

lemma quantum_minus [simp]: "quantum (- x) = quantum x"
  by (simp add: quantum_def ilog2_def)

lemma round_mag_minus [simp]: "round_mag (- x) = round_mag x"
  by (simp add: round_mag_def)

lemma round_mag_nonneg: "0 \<le> round_mag x"
  by (simp add: round_mag_def rhe_nonneg)

lemma round_mag_upper:
  assumes "quantum x \<le> m" and "\<bar>x\<bar> \<le> 2 powi m"
  shows "round_mag x \<le> 2 powi m"
proof -
  note s = pow2_split[OF assms(1)]
  have "\<bar>x\<bar> \<le> of_int (2 ^ nat (m - quantum x)) * 2 powi quantum x"
    using assms(2) by (simp only: s)
  then have "round_mag x \<le> of_int (2 ^ nat (m - quantum x)) * 2 powi quantum x"
    unfolding round_mag_def by (rule grid_upper)
  then show ?thesis by (simp only: s)
qed

lemma round_mag_lower:
  assumes "quantum x \<le> m" and "2 powi m \<le> \<bar>x\<bar>"
  shows "2 powi m \<le> round_mag x"
proof -
  note s = pow2_split[OF assms(1)]
  have "of_int (2 ^ nat (m - quantum x)) * 2 powi quantum x \<le> \<bar>x\<bar>"
    using assms(2) by (simp only: s)
  then have "of_int (2 ^ nat (m - quantum x)) * 2 powi quantum x \<le> round_mag x"
    unfolding round_mag_def by (rule grid_lower)
  then show ?thesis by (simp only: s)
qed

lemma round_mag_error: "\<bar>round_mag x - \<bar>x\<bar>\<bar> \<le> 2 powi quantum x / 2"
proof -
  define q where "q = quantum x"
  have "round_mag x - \<bar>x\<bar> = (of_int (rhe (\<bar>x\<bar> / 2 powi q)) - \<bar>x\<bar> / 2 powi q) * 2 powi q"
    by (simp add: round_mag_def q_def algebra_simps)
  then have "\<bar>round_mag x - \<bar>x\<bar>\<bar> = \<bar>of_int (rhe (\<bar>x\<bar> / 2 powi q)) - \<bar>x\<bar> / 2 powi q\<bar> * 2 powi q"
    by (simp add: abs_mult)
  also have "\<dots> \<le> 1 / 2 * 2 powi q"
    by (rule mult_right_mono[OF rhe_error]) simp
  finally show ?thesis by (simp add: q_def)
qed

lemma ilog2_mono:
  assumes "x \<noteq> 0" and "\<bar>x\<bar> \<le> \<bar>y\<bar>"
  shows "ilog2 x \<le> ilog2 y"
proof -
  have y: "y \<noteq> 0" using assms by auto
  have "2 powi ilog2 x \<le> \<bar>x\<bar>" by (rule ilog2_bounds(1)[OF assms(1)])
  also have "\<dots> \<le> \<bar>y\<bar>" by (rule assms(2))
  also have "\<dots> < 2 powi (ilog2 y + 1)" by (rule ilog2_bounds(2)[OF y])
  finally have "ilog2 x < ilog2 y + 1" by (simp only: pow2_less_iff)
  then show ?thesis by simp
qed

lemma round_mag_mono:
  assumes x: "x \<noteq> 0" and le: "\<bar>x\<bar> \<le> \<bar>y\<bar>"
  shows "round_mag x \<le> round_mag y"
proof (cases "quantum x = quantum y")
  case True
  have "\<bar>x\<bar> / 2 powi quantum y \<le> \<bar>y\<bar> / 2 powi quantum y"
    using le by (simp add: divide_right_mono)
  then have "rhe (\<bar>x\<bar> / 2 powi quantum y) \<le> rhe (\<bar>y\<bar> / 2 powi quantum y)" by (rule rhe_mono)
  then have "(of_int (rhe (\<bar>x\<bar> / 2 powi quantum y)) :: rat) \<le> of_int (rhe (\<bar>y\<bar> / 2 powi quantum y))"
    by (simp only: of_int_le_iff)
  then show ?thesis by (simp add: round_mag_def True mult_right_mono)
next
  case False
  have y: "y \<noteq> 0" using x le by auto
  have e: "ilog2 x \<le> ilog2 y" using x le by (rule ilog2_mono)
  with False have qy: "quantum y = ilog2 y - 52" and lt: "ilog2 x < ilog2 y"
    and qlt: "quantum x < quantum y"
    by (auto simp add: quantum_def max_def split: if_splits)
  define m where "m = max (ilog2 x + 1) (quantum x)"
  have "\<bar>x\<bar> < 2 powi (ilog2 x + 1)" by (rule ilog2_bounds(2)[OF x])
  also have "\<dots> \<le> 2 powi m" by (simp only: pow2_le_iff) (simp add: m_def)
  finally have "\<bar>x\<bar> \<le> 2 powi m" by simp
  then have "round_mag x \<le> 2 powi m" by (rule round_mag_upper[rotated]) (simp add: m_def)
  also have "\<dots> \<le> 2 powi ilog2 y"
    using lt qlt qy by (simp only: pow2_le_iff) (simp add: m_def)
  also have "\<dots> \<le> round_mag y"
    by (rule round_mag_lower) (simp_all add: qy ilog2_bounds(1)[OF y])
  finally show ?thesis .
qed


subsection \<open>Rounding to a double\<close>

lemma sgn_round_mag_mono:
  assumes "x \<le> y"
  shows "sgn x * round_mag x \<le> sgn y * round_mag y"
proof -
  consider "0 < x" | "y < 0" | "x \<le> 0" "0 \<le> y" using assms by linarith
  then show ?thesis
  proof cases
    case 1
    then have "round_mag x \<le> round_mag y" using assms by (intro round_mag_mono) auto
    with 1 assms show ?thesis by simp
  next
    case 2
    then have "round_mag y \<le> round_mag x" using assms by (intro round_mag_mono) auto
    with 2 assms show ?thesis by simp
  next
    case 3
    have "sgn x * round_mag x \<le> 0"
      using 3(1) round_mag_nonneg[of x] by (simp add: mult_nonpos_nonneg sgn_if)
    also have "0 \<le> sgn y * round_mag y"
      using 3(2) round_mag_nonneg[of y] by (simp add: sgn_if)
    finally show ?thesis .
  qed
qed

lemma fl_cases:
  "fl x = (if 2 powi 1024 \<le> sgn x * round_mag x then PosInf
           else if sgn x * round_mag x \<le> - (2 powi 1024) then NegInf
           else Finite (sgn x * round_mag x))"
proof -
  define B where "B = (2::rat) powi 1024"
  have p: "0 < B" unfolding B_def by (rule zero_less_power_int) simp
  have "fl x = (if B \<le> sgn x * round_mag x then PosInf
           else if sgn x * round_mag x \<le> - B then NegInf
           else Finite (sgn x * round_mag x))"
    unfolding fl_def B_def[symmetric]
    using p round_mag_nonneg[of x]
    by (cases "x = 0"; cases "0 < x") (auto simp add: sgn_if)
  then show ?thesis unfolding B_def .
qed


lemma fl_mono:
  assumes "x \<le> y"
  shows "py_le (fl x) (fl y)"
proof -
  define B where "B = (2::rat) powi 1024"
  have p: "0 < B" unfolding B_def by (rule zero_less_power_int) simp
  show ?thesis
    unfolding fl_cases B_def[symmetric]
    using sgn_round_mag_mono[OF assms] p
    by auto
qed

lemma fl_finite_value:
  assumes "fl x = Finite v"
  shows "v = sgn x * round_mag x" and "\<bar>v\<bar> < 2 powi 1024"
proof -
  define B where "B = (2::rat) powi 1024"
  have "fl x = (if B \<le> sgn x * round_mag x then PosInf
           else if sgn x * round_mag x \<le> - B then NegInf
           else Finite (sgn x * round_mag x))"
    unfolding B_def by (rule fl_cases)
  with assms have a: "v = sgn x * round_mag x" and b: "\<bar>v\<bar> < B"
    by (auto split: if_splits)
  show "v = sgn x * round_mag x" by (rule a)
  show "\<bar>v\<bar> < 2 powi 1024" using b unfolding B_def .
qed

lemma sgn_rat_of_int: "(sgn x :: rat) = of_int (if x = 0 then 0 else if 0 < x then 1 else - 1)"
  by (simp add: sgn_if)

lemma fl_finite_grid:
  assumes "fl x = Finite v"
  shows "\<exists>k. v = of_int k * 2 powi quantum x"
proof -
  define s :: int where "s = (if x = 0 then 0 else if 0 < x then 1 else - 1)"
  have "v = sgn x * round_mag x" using assms by (rule fl_finite_value)
  also have "\<dots> = of_int (s * rhe (\<bar>x\<bar> / 2 powi quantum x)) * 2 powi quantum x"
    by (simp add: round_mag_def sgn_rat_of_int s_def)
  finally show ?thesis ..
qed

text \<open>Every finite double is a multiple of the smallest subnormal.\<close>

lemma fl_finite_discrete:
  assumes "fl x = Finite v"
  shows "\<exists>k. v = of_int k * 2 powi (- 1074)"
proof -
  from fl_finite_grid[OF assms] obtain k where k: "v = of_int k * 2 powi quantum x" ..
  have "(2::rat) powi quantum x = of_int (2 ^ nat (quantum x - (- 1074))) * 2 powi (- 1074)"
    by (rule pow2_split) (rule quantum_ge)
  then have "v = of_int (k * 2 ^ nat (quantum x - (- 1074))) * 2 powi (- 1074)"
    using k by (simp only: of_int_mult mult.assoc)
  then show ?thesis ..
qed

lemma fl_error:
  assumes "fl x = Finite v"
  shows "\<bar>v - x\<bar> \<le> 2 powi quantum x / 2"
proof -
  have v: "v = sgn x * round_mag x" using assms by (rule fl_finite_value)
  have "v - x = sgn x * (round_mag x - \<bar>x\<bar>)"
    by (simp add: v algebra_simps sgn_if abs_if)
  then have "\<bar>v - x\<bar> = \<bar>sgn x\<bar> * \<bar>round_mag x - \<bar>x\<bar>\<bar>" by (simp add: abs_mult)
  also have "\<dots> \<le> 1 * \<bar>round_mag x - \<bar>x\<bar>\<bar>"
    by (rule mult_right_mono) (simp_all add: sgn_if)
  also have "\<dots> \<le> 2 powi quantum x / 2" using round_mag_error[of x] by simp
  finally show ?thesis .
qed


lemma round_mag_on_grid:
  assumes "\<bar>v\<bar> = of_int k * 2 powi g" and "quantum v \<le> g"
  shows "round_mag v = \<bar>v\<bar>"
  unfolding round_mag_def assms(1) by (rule grid_fixed[OF assms(2)])

lemma fl_of_rounded:
  assumes "round_mag v = \<bar>v\<bar>" and "\<bar>v\<bar> < 2 powi 1024"
  shows "fl v = Finite v"
proof -
  define B where "B = (2::rat) powi 1024"
  have s: "sgn v * round_mag v = v" by (simp add: assms(1) sgn_if abs_if)
  have "\<bar>v\<bar> < B" using assms(2) unfolding B_def .
  then show ?thesis
    unfolding fl_cases s B_def[symmetric] by auto
qed

text \<open>A value that rounding produced is a double: rounding it again changes nothing.\<close>

lemma fl_idem:
  assumes "fl x = Finite v"
  shows "fl v = Finite v"
proof (cases "v = 0")
  case True
  then show ?thesis by (simp add: fl_def)
next
  case False
  note v = fl_finite_value[OF assms]
  have x: "x \<noteq> 0" using False v(1) by auto
  have av: "\<bar>v\<bar> = round_mag x"
    using v(1) x round_mag_nonneg[of x] by (simp add: abs_mult sgn_if)
  define e where "e = ilog2 x"
  define q where "q = quantum x"
  define k where "k = rhe (\<bar>x\<bar> / 2 powi q)"
  have vk: "\<bar>v\<bar> = of_int k * 2 powi q" by (simp add: av round_mag_def k_def q_def)
  have qe: "q = max (e - 52) (- 1074)" by (simp add: q_def e_def quantum_def)
  have "round_mag v = \<bar>v\<bar>"
  proof (cases "\<bar>v\<bar> < 2 powi (e + 1)")
    case True
    have "2 powi ilog2 v \<le> \<bar>v\<bar>" by (rule ilog2_bounds(1)[OF False])
    also note True
    finally have "ilog2 v < e + 1" by (simp only: pow2_less_iff)
    then have "quantum v \<le> q" by (simp add: qe quantum_def)
    with vk show ?thesis by (rule round_mag_on_grid)
  next
    case big: False
    define m where "m = max (e + 1) q"
    have qm: "q \<le> m" by (simp add: m_def)
    have "\<bar>x\<bar> < 2 powi (e + 1)" unfolding e_def by (rule ilog2_bounds(2)[OF x])
    also have "\<dots> \<le> 2 powi m" by (simp only: pow2_le_iff) (simp add: m_def)
    finally have "\<bar>x\<bar> \<le> 2 powi m" by simp
    with qm have up: "\<bar>v\<bar> \<le> 2 powi m" unfolding av q_def by (rule round_mag_upper)
    have eq: "\<bar>v\<bar> = 2 powi m"
    proof (cases "q \<le> e + 1")
      case True
      then have "m = e + 1" by (simp add: m_def)
      with up big show ?thesis by simp
    next
      case False
      then have mq: "m = q" by (simp add: m_def)
      have "of_int k * 2 powi q \<le> 1 * (2::rat) powi q" using up by (simp add: vk mq)
      then have "(of_int k :: rat) \<le> 1" by (simp only: mult_le_cancel_right_pos[OF pow2_pos])
      then have k1: "k \<le> 1" by simp
      have "0 < \<bar>v\<bar>" using \<open>v \<noteq> 0\<close> by simp
      then have "0 < of_int k * (2::rat) powi q" by (simp only: vk)
      then have "(0::rat) < of_int k" using pow2_pos[of q] by (rule zero_less_mult_pos2)
      then have "0 < k" by simp
      with k1 have "k = 1" by simp
      then show ?thesis by (simp add: vk mq)
    qed
    have "\<bar>v\<bar> < 2 powi (m + 1)" unfolding eq by (simp only: pow2_less_iff)
    with eq have "ilog2 v = m" by (intro ilog2_unique) simp_all
    then have "quantum v \<le> m" using qm by (simp add: quantum_def qe)
    moreover have "\<bar>v\<bar> = of_int 1 * 2 powi m" by (simp add: eq)
    ultimately show ?thesis by (intro round_mag_on_grid)
  qed
  then show ?thesis using v(2) by (rule fl_of_rounded)
qed

lemma is_float_fl [simp]: "is_float (fl x)"
  by (cases "fl x") (simp_all add: fl_idem)

text \<open>Evaluating \<open>fl\<close> on a number whose binary exponent is known.\<close>

lemma fl_eval:
  assumes "2 powi e \<le> \<bar>x\<bar>" and "\<bar>x\<bar> < 2 powi (e + 1)" and "- 1022 \<le> e" and "e \<le> 1022"
  shows "fl x = Finite (sgn x * (of_int (rhe (\<bar>x\<bar> / 2 powi (e - 52))) * 2 powi (e - 52)))"
proof -
  define B where "B = (2::rat) powi 1024"
  have il: "ilog2 x = e" using assms(1,2) by (rule ilog2_unique)
  then have q: "quantum x = e - 52" using assms(3) by (simp add: quantum_def)
  have "round_mag x \<le> 2 powi (e + 1)"
    by (rule round_mag_upper) (use assms(2) in \<open>simp_all add: q\<close>)
  also have "\<dots> < B" unfolding B_def by (simp only: pow2_less_iff) (use assms(4) in simp)
  finally have b: "round_mag x < B" .
  have "\<bar>sgn x * round_mag x\<bar> < B"
    using b round_mag_nonneg[of x] by (simp add: abs_mult sgn_if)
  then have "fl x = Finite (sgn x * round_mag x)"
    unfolding fl_cases B_def[symmetric] by auto
  then show ?thesis by (simp add: round_mag_def q)
qed

lemma py_add_ge:
  assumes "fl x = Finite x" and "0 \<le> s"
  shows "py_le (Finite x) (py_add (Finite x) (Finite s))"
proof -
  have "py_le (fl x) (fl (x + s))" by (rule fl_mono) (use assms(2) in simp)
  then show ?thesis by (simp add: assms(1))
qed

lemma floor_rat_numeral_div [simp]:
  "\<lfloor>numeral a / numeral b :: rat\<rfloor> = numeral a div numeral b"
  by (metis floor_divide_of_int_eq of_int_numeral)

lemma floor_rat_neg_numeral_div [simp]:
  "\<lfloor>- (numeral a / numeral b) :: rat\<rfloor> = - numeral a div numeral b"
  by (metis floor_divide_of_int_eq of_int_numeral of_int_minus minus_divide_left)


section \<open>The order of floats\<close>

lemma py_le_trans: "py_le a b \<Longrightarrow> py_le b c \<Longrightarrow> py_le a c"
  by (cases a; cases b; cases c) simp_all

lemma py_le_refl: "a \<noteq> NaN \<Longrightarrow> py_le a a"
  by (cases a) simp_all

lemma py_lt_imp_le: "py_lt a b \<Longrightarrow> py_le a b"
  by (cases a; cases b) simp_all

lemma py_lt_not_le: "py_lt a b \<Longrightarrow> \<not> py_le b a"
  by (cases a; cases b) simp_all

lemma py_le_not_nan: "py_le a b \<Longrightarrow> a \<noteq> NaN \<and> b \<noteq> NaN"
  by (cases a; cases b) simp_all


lemma is_float_py_add [simp]: "is_float (py_add a b)"
  by (cases a; cases b) simp_all


text \<open>Adding a positive step never goes down.\<close>

lemma py_add_ge_float:
  assumes "is_float x" and "py_lt (Finite 0) step" and "py_add x step \<noteq> NaN" and "x \<noteq> NaN"
  shows "py_le x (py_add x step)"
proof (cases x; cases step)
  fix a s
  assume xs: "x = Finite a" "step = Finite s"
  with assms(1,2) have "fl a = Finite a" "0 \<le> s" by simp_all
  then show ?thesis unfolding xs by (rule py_add_ge)
qed (use assms in simp_all)

section \<open>The two loops\<close>

lemma lon_loop_sweeps:
  "sweeps (max_lon b) step lon lons \<Longrightarrow>
   lon_loop b step lat lon points =
     Some (points @ map (\<lambda>lo. (py_round4 lat, py_round4 lo)) lons)"
proof (induction arbitrary: points rule: sweeps.induct)
  case (stop x)
  then show ?case by (subst lon_loop.simps) simp
next
  case (more x xs)
  show ?case
    by (subst lon_loop.simps) (simp add: more.hyps more.IH)
qed

lemma lon_loop_returns:
  assumes "lon_loop b step lat lon points = Some r"
  shows "\<exists>lons. sweeps (max_lon b) step lon lons"
proof (rule lon_loop.raw_induct
    [where P = "\<lambda>b step lat lon points r. \<exists>lons. sweeps (max_lon b) step lon lons", OF _ assms])
  fix f :: "bbox \<Rightarrow> pyfloat \<Rightarrow> pyfloat \<Rightarrow> pyfloat \<Rightarrow> point list \<Rightarrow> point list option"
    and b step lat lon and points r :: "point list"
  assume IH: "\<And>b step lat lon points r.
                f b step lat lon points = Some r \<Longrightarrow> \<exists>lons. sweeps (max_lon b) step lon lons"
    and eq: "(if py_le lon (max_lon b)
              then f b step lat (py_add lon step) (points @ [(py_round4 lat, py_round4 lon)])
              else Some points) = Some r"
  show "\<exists>lons. sweeps (max_lon b) step lon lons"
  proof (cases "py_le lon (max_lon b)")
    case True
    with eq have "f b step lat (py_add lon step) (points @ [(py_round4 lat, py_round4 lon)]) = Some r"
      by simp
    then obtain lons where "sweeps (max_lon b) step (py_add lon step) lons"
      using IH by blast
    with True have "sweeps (max_lon b) step lon (lon # lons)" by (rule sweeps.more)
    then show ?thesis ..
  next
    case False
    then have "sweeps (max_lon b) step lon []" by (rule sweeps.stop)
    then show ?thesis ..
  qed
qed

lemma lat_loop_sweeps:
  "sweeps (max_lat b) step lat lats \<Longrightarrow>
   (lats \<noteq> [] \<Longrightarrow> sweeps (max_lon b) step (min_lon b) lons) \<Longrightarrow>
   lat_loop b step lat points = Some (points @ product_grid lats lons)"
proof (induction arbitrary: points rule: sweeps.induct)
  case (stop x)
  then show ?case by (subst lat_loop.simps) (simp add: product_grid_def)
next
  case (more x xs)
  have lons: "sweeps (max_lon b) step (min_lon b) lons" using more.prems by simp
  have "lat_loop b step (py_add x step) (points @ map (\<lambda>lo. (py_round4 x, py_round4 lo)) lons)
          = Some ((points @ map (\<lambda>lo. (py_round4 x, py_round4 lo)) lons) @ product_grid xs lons)"
    by (rule more.IH) (rule lons)
  then show ?case
    by (subst lat_loop.simps) (simp add: more.hyps lon_loop_sweeps[OF lons] product_grid_def)
qed

lemma lat_loop_returns:
  assumes "lat_loop b step lat points = Some r"
  shows "\<exists>lats. sweeps (max_lat b) step lat lats \<and>
           (lats = [] \<or> (\<exists>lons. sweeps (max_lon b) step (min_lon b) lons))"
proof (rule lat_loop.raw_induct
    [where P = "\<lambda>b step lat points r. \<exists>lats. sweeps (max_lat b) step lat lats \<and>
           (lats = [] \<or> (\<exists>lons. sweeps (max_lon b) step (min_lon b) lons))", OF _ assms])
  fix f :: "bbox \<Rightarrow> pyfloat \<Rightarrow> pyfloat \<Rightarrow> point list \<Rightarrow> point list option"
    and b step lat and points r :: "point list"
  assume IH: "\<And>b step lat points r.
                f b step lat points = Some r \<Longrightarrow>
                \<exists>lats. sweeps (max_lat b) step lat lats \<and>
                  (lats = [] \<or> (\<exists>lons. sweeps (max_lon b) step (min_lon b) lons))"
    and eq: "(if py_le lat (max_lat b)
              then Option.bind (lon_loop b step lat (min_lon b) points)
                     (f b step (py_add lat step))
              else Some points) = Some r"
  show "\<exists>lats. sweeps (max_lat b) step lat lats \<and>
          (lats = [] \<or> (\<exists>lons. sweeps (max_lon b) step (min_lon b) lons))"
  proof (cases "py_le lat (max_lat b)")
    case True
    with eq obtain ps where ps: "lon_loop b step lat (min_lon b) points = Some ps"
      and rest: "f b step (py_add lat step) ps = Some r"
      by (auto simp add: bind_eq_Some_conv)
    from ps obtain lons where lons: "sweeps (max_lon b) step (min_lon b) lons"
      using lon_loop_returns by blast
    from rest obtain lats where "sweeps (max_lat b) step (py_add lat step) lats"
      using IH by blast
    with True have "sweeps (max_lat b) step lat (lat # lats)" by (rule sweeps.more)
    with lons show ?thesis by blast
  next
    case False
    then have "sweeps (max_lat b) step lat []" by (rule sweeps.stop)
    then show ?thesis by blast
  qed
qed

text \<open>The grid is the product of the latitude sweep and the longitude sweep.\<close>

lemma generate_grid_product:
  "generate_grid b step = Some pts \<longleftrightarrow>
     (\<exists>lats. sweeps (max_lat b) step (min_lat b) lats \<and>
        (if lats = [] then pts = []
         else \<exists>lons. sweeps (max_lon b) step (min_lon b) lons \<and> pts = product_grid lats lons))"
proof
  assume g: "generate_grid b step = Some pts"
  then have l: "lat_loop b step (min_lat b) [] = Some pts" by (simp add: generate_grid_def)
  from lat_loop_returns[OF l] obtain lats where lats: "sweeps (max_lat b) step (min_lat b) lats"
    and c: "lats = [] \<or> (\<exists>lons. sweeps (max_lon b) step (min_lon b) lons)" by blast
  show "\<exists>lats. sweeps (max_lat b) step (min_lat b) lats \<and>
        (if lats = [] then pts = []
         else \<exists>lons. sweeps (max_lon b) step (min_lon b) lons \<and> pts = product_grid lats lons)"
  proof (cases "lats = []")
    case True
    have "lat_loop b step (min_lat b) [] = Some ([] @ product_grid lats [])"
      using lats by (rule lat_loop_sweeps) (simp add: True)
    with l True have "pts = []" by (simp add: product_grid_def)
    with lats True show ?thesis by auto
  next
    case False
    with c obtain lons where lons: "sweeps (max_lon b) step (min_lon b) lons" by blast
    have "lat_loop b step (min_lat b) [] = Some ([] @ product_grid lats lons)"
      using lats lons by (rule lat_loop_sweeps)
    with l have "pts = product_grid lats lons" by simp
    with lats lons False show ?thesis by auto
  qed
next
  assume "\<exists>lats. sweeps (max_lat b) step (min_lat b) lats \<and>
        (if lats = [] then pts = []
         else \<exists>lons. sweeps (max_lon b) step (min_lon b) lons \<and> pts = product_grid lats lons)"
  then obtain lats where lats: "sweeps (max_lat b) step (min_lat b) lats"
    and c: "if lats = [] then pts = []
         else \<exists>lons. sweeps (max_lon b) step (min_lon b) lons \<and> pts = product_grid lats lons"
    by blast
  show "generate_grid b step = Some pts"
  proof (cases "lats = []")
    case True
    have "lat_loop b step (min_lat b) [] = Some ([] @ product_grid lats [])"
      using lats by (rule lat_loop_sweeps) (simp add: True)
    with c True show ?thesis by (simp add: generate_grid_def product_grid_def)
  next
    case False
    with c obtain lons where lons: "sweeps (max_lon b) step (min_lon b) lons"
      and p: "pts = product_grid lats lons" by auto
    have "lat_loop b step (min_lat b) [] = Some ([] @ product_grid lats lons)"
      using lats lons by (rule lat_loop_sweeps)
    with p show ?thesis by (simp add: generate_grid_def)
  qed
qed


section \<open>What a sweep visits\<close>



text \<open>Every value visited lies between the start and the bound.\<close>

lemma sweeps_bounds:
  assumes "sweeps hi step x xs" and "is_float x" and "py_lt (Finite 0) step" and "y \<in> set xs"
  shows "py_le x y \<and> py_le y hi"
  using assms
proof (induction rule: sweeps.induct)
  case (stop x)
  then show ?case by simp
next
  case (more x xs)
  have xn: "x \<noteq> NaN" using more.hyps(1) by (auto dest: py_le_not_nan)
  show ?case
  proof (cases "y = x")
    case True
    with more.hyps(1) xn show ?thesis by (simp add: py_le_refl)
  next
    case False
    with more.prems have y: "y \<in> set xs" by simp
    then have b: "py_le (py_add x step) y \<and> py_le y hi"
      using more.IH more.prems by simp
    then have "py_add x step \<noteq> NaN" by (auto dest: py_le_not_nan)
    with more.prems xn have "py_le x (py_add x step)" by (intro py_add_ge_float) 
    with b show ?thesis by (blast intro: py_le_trans)
  qed
qed

text \<open>A sweep that ends has moved at every step.\<close>

lemma sweeps_moves:
  "sweeps hi step x xs \<Longrightarrow> py_add x step = x \<Longrightarrow> \<not> py_le x hi"
  by (induction rule: sweeps.induct) auto



section \<open>When the loops end\<close>

lemma py_add_discrete:
  assumes "py_add x step = Finite c"
  shows "\<exists>k. c = of_int k * 2 powi (- 1074)"
proof (cases x; cases step)
  fix a s
  assume "x = Finite a" "step = Finite s"
  with assms have "fl (a + s) = Finite c" by simp
  then show ?thesis by (rule fl_finite_discrete)
qed (use assms in simp_all)

lemma py_lt_PosInf [simp]: "\<not> py_lt PosInf a"
  by (cases a) simp_all

lemma py_add_NegInf: "py_add NegInf s = NegInf \<or> py_add NegInf s = NaN"
  by (cases s) simp_all

lemma py_lt_NegInf_add [simp]: "\<not> py_lt NegInf (py_add NegInf s)"
  using py_add_NegInf[of s] by auto

lemma sweeps_exists_finite:
  assumes na: "no_absorption lo (Finite M) step"
  shows "is_float x \<Longrightarrow> py_le lo x \<Longrightarrow> \<exists>xs. sweeps (Finite M) step x xs"
proof (induction x rule: measure_induct_rule
    [where f = "\<lambda>x. case x of Finite a \<Rightarrow> nat (\<lfloor>M * 2 powi 1074\<rfloor> - \<lfloor>a * 2 powi 1074\<rfloor> + 1) | _ \<Rightarrow> 0"])
  case (less x)
  show ?case
  proof (cases "py_le x (Finite M)")
    case False
    then have "sweeps (Finite M) step x []" by (rule sweeps.stop)
    then show ?thesis ..
  next
    case True
    define y where "y = py_add x step"
    have lt: "py_lt x y"
      using na less.prems True unfolding no_absorption_def y_def by blast
    have "\<exists>ys. sweeps (Finite M) step y ys"
    proof (cases "py_le y (Finite M)")
      case False
      then have "sweeps (Finite M) step y []" by (rule sweeps.stop)
      then show ?thesis ..
    next
      case yM: True
      from True lt obtain a where a: "x = Finite a"
        unfolding y_def by (cases x) auto
      from yM lt obtain c where c: "y = Finite c"
        by (cases x; cases y) simp_all
      from lt have ac: "a < c" by (simp add: a c)
      from yM have cM: "c \<le> M" by (simp add: c)
      from c obtain k where k: "c = of_int k * 2 powi (- 1074)"
        using py_add_discrete[of x step c] by (auto simp add: y_def)
      have "c * 2 powi 1074 = of_int k * (2 powi (- 1074) * 2 powi 1074)"
        by (simp add: k)
      also have "(2::rat) powi (- 1074) * 2 powi 1074 = 1"
      proof -
        have "(2::rat) powi (- 1074 + 1074) = 2 powi (- 1074) * 2 powi 1074"
          by (rule power_int_add) simp
        then show ?thesis by (simp del: power_int_numeral power_int_numeral_neg_numeral)
      qed
      finally have ck: "c * 2 powi 1074 = of_int k" by simp
      have "a * 2 powi 1074 < c * 2 powi 1074"
        using ac by (simp only: mult_less_cancel_right_pos[OF pow2_pos])
      then have "a * 2 powi 1074 < of_int k" by (simp only: ck)
      then have fa: "\<lfloor>a * 2 powi 1074\<rfloor> < k" by (simp only: floor_less_iff)
      have "c * 2 powi 1074 \<le> M * 2 powi 1074"
        using cM by (simp only: mult_le_cancel_right_pos[OF pow2_pos])
      then have "of_int k \<le> M * 2 powi 1074" by (simp only: ck)
      then have kM: "k \<le> \<lfloor>M * 2 powi 1074\<rfloor>" by (simp only: le_floor_iff)
      have fc: "\<lfloor>c * 2 powi 1074\<rfloor> = k" by (simp only: ck floor_of_int)
      have "nat (\<lfloor>M * 2 powi 1074\<rfloor> - \<lfloor>c * 2 powi 1074\<rfloor> + 1)
              < nat (\<lfloor>M * 2 powi 1074\<rfloor> - \<lfloor>a * 2 powi 1074\<rfloor> + 1)"
        unfolding fc using fa kM by linarith
      then have m: "(case y of Finite a \<Rightarrow> nat (\<lfloor>M * 2 powi 1074\<rfloor> - \<lfloor>a * 2 powi 1074\<rfloor> + 1) | _ \<Rightarrow> 0)
                 < (case x of Finite a \<Rightarrow> nat (\<lfloor>M * 2 powi 1074\<rfloor> - \<lfloor>a * 2 powi 1074\<rfloor> + 1) | _ \<Rightarrow> 0)"
        by (simp only: a c pyfloat.case)
      have "is_float y" by (simp add: y_def)
      moreover have "py_le lo y"
        using less.prems(2) py_lt_imp_le[OF lt] by (rule py_le_trans)
      ultimately show ?thesis using less.IH[OF m] by blast
    qed
    then obtain ys where "sweeps (Finite M) step y ys" ..
    with True have "sweeps (Finite M) step x (x # ys)"
      unfolding y_def by (rule sweeps.more)
    then show ?thesis ..
  qed
qed

lemma sweeps_exists:
  assumes na: "no_absorption lo hi step" and fx: "is_float x" and lo: "py_le x hi \<Longrightarrow> py_le lo x"
  shows "\<exists>xs. sweeps hi step x xs"
proof (cases "py_le x hi")
  case False
  then have "sweeps hi step x []" by (rule sweeps.stop)
  then show ?thesis ..
next
  case True
  then have lx: "py_le lo x" by (rule lo)
  have "py_lt x (py_add x step)"
    using na fx lx True unfolding no_absorption_def by blast
  have "\<exists>M. hi = Finite M"
  proof (cases hi)
    case PosInf
    have "py_le lo PosInf" using lx by (cases lo; cases x) simp_all
    moreover from na have "is_float PosInf \<and> py_le lo PosInf \<and> py_le PosInf PosInf \<longrightarrow>
        py_lt PosInf (py_add PosInf step)"
      unfolding no_absorption_def PosInf by (rule spec)
    ultimately show ?thesis by simp
  next
    case NegInf
    with True have x: "x = NegInf" by (cases x) simp_all
    have "py_lt NegInf (py_add NegInf step)"
      using na fx lx True unfolding no_absorption_def x by blast
    then show ?thesis by simp
  next
    case NaN
    with True show ?thesis by (cases x) simp_all
  qed simp
  then obtain M where "hi = Finite M" ..
  with na fx lx show ?thesis by (auto intro: sweeps_exists_finite)
qed


lemma fl_finite_bounded:
  assumes "quantum x \<le> m" and "\<bar>x\<bar> \<le> 2 powi m" and "m < 1024"
  shows "fl x = Finite (sgn x * round_mag x)"
proof -
  define B where "B = (2::rat) powi 1024"
  have "round_mag x \<le> 2 powi m" using assms(1,2) by (rule round_mag_upper)
  also have "\<dots> < B" unfolding B_def by (simp only: pow2_less_iff) (rule assms(3))
  finally have b: "round_mag x < B" .
  have "\<bar>sgn x * round_mag x\<bar> < B"
    using b round_mag_nonneg[of x] by (simp add: abs_mult sgn_if)
  then show ?thesis
    unfolding fl_cases B_def[symmetric] by auto
qed

text \<open>
  Among numbers of magnitude at most 1024, a step of at least \<open>2^-40\<close> is never
  absorbed.
\<close>

lemma add_step_greater:
  assumes a: "\<bar>a\<bar> \<le> 1024" and s: "1 / 2 ^ 40 \<le> s" "s \<le> 1024"
  shows "py_lt (Finite a) (py_add (Finite a) (Finite s))"
proof (cases "a + s = 0")
  case True
  with s have "a < 0" by simp
  with True show ?thesis by (simp add: fl_def)
next
  case False
  define z where "z = a + s"
  have z0: "z \<noteq> 0" using False by (simp add: z_def)
  have zb: "\<bar>z\<bar> \<le> 2 powi 11" using a s by (simp add: z_def)
  have "2 powi ilog2 z \<le> \<bar>z\<bar>" by (rule ilog2_bounds(1)[OF z0])
  also have "\<dots> < 2 powi 12" using zb by simp
  finally have "ilog2 z < 12" by (simp only: pow2_less_iff)
  then have q: "quantum z \<le> - 41" by (simp add: quantum_def)
  then have "quantum z \<le> 11" by simp
  then have f: "fl z = Finite (sgn z * round_mag z)"
    using zb by (rule fl_finite_bounded) simp
  have "\<bar>sgn z * round_mag z - z\<bar> \<le> 2 powi quantum z / 2" using f by (rule fl_error)
  also have "(2::rat) powi quantum z \<le> 2 powi (- 41)" using q by (simp only: pow2_le_iff)
  finally have "\<bar>sgn z * round_mag z - z\<bar> \<le> 2 powi (- 41) / 2" by simp
  then have "z - 2 powi (- 41) / 2 \<le> sgn z * round_mag z" by linarith
  moreover have "a < z - 2 powi (- 41) / 2" using s(1) by (simp add: z_def)
  ultimately have "a < sgn z * round_mag z" by linarith
  then show ?thesis by (simp add: f z_def[symmetric])
qed

lemma no_absorption_small:
  assumes "- 1024 \<le> lo" and "hi \<le> 1024" and "1 / 2 ^ 40 \<le> s" and "s \<le> 1024"
  shows "no_absorption (Finite lo) (Finite hi) (Finite s)"
  unfolding no_absorption_def
proof (intro allI impI)
  fix x
  assume h: "is_float x \<and> py_le (Finite lo) x \<and> py_le x (Finite hi)"
  then obtain a where x: "x = Finite a" by (cases x) simp_all
  with h have "lo \<le> a" "a \<le> hi" by simp_all
  with assms(1,2) have "\<bar>a\<bar> \<le> 1024" by linarith
  then show "py_lt x (py_add x (Finite s))"
    unfolding x using assms(3,4) by (rule add_step_greater)
qed


section \<open>Some sums and roundings\<close>

lemma GRID_STEP_value: "GRID_STEP = Finite (5404319552844595 / 18014398509481984)"
  unfolding GRID_STEP_def
  by (subst fl_eval[where e = "- 2"]) (simp_all add: rhe_def Let_def)

lemma float_8: "fl 8 = Finite 8"
  by (subst fl_eval[where e = 3]) (simp_all add: rhe_def Let_def)

lemma float_76: "fl 76 = Finite 76"
  by (subst fl_eval[where e = 6]) (simp_all add: rhe_def Let_def)

lemma add_8_step:
  "py_add (Finite 8) (Finite (5404319552844595 / 18014398509481984)) =
     Finite (2336242306698445 / 281474976710656)"
  by (simp, subst fl_eval[where e = 3]) (simp_all add: rhe_def Let_def)

lemma add_8_3_step:
  "py_add (Finite (2336242306698445 / 281474976710656)) (Finite (5404319552844595 / 18014398509481984)) =
     Finite (1210342399855821 / 140737488355328)"
  by (simp, subst fl_eval[where e = 3]) (simp_all add: rhe_def Let_def)

lemma add_76_step:
  "py_add (Finite 76) (Finite (5404319552844595 / 18014398509481984)) =
     Finite (5369135180755763 / 70368744177664)"
  by (simp, subst fl_eval[where e = 6]) (simp_all add: rhe_def Let_def)

lemma add_76_3_step:
  "py_add (Finite (5369135180755763 / 70368744177664)) (Finite (5404319552844595 / 18014398509481984)) =
     Finite (2695122902004531 / 35184372088832)"
  by (simp, subst fl_eval[where e = 6]) (simp_all add: rhe_def Let_def)

lemma round4_8: "py_round4 (Finite 8) = Finite 8"
  by (simp add: rhe_def Let_def float_8)

lemma round4_76: "py_round4 (Finite 76) = Finite 76"
  by (simp add: rhe_def Let_def float_76)

lemma round4_8_3:
  "py_round4 (Finite (2336242306698445 / 281474976710656)) = Finite (2336242306698445 / 281474976710656)"
  by (simp add: rhe_def Let_def, subst fl_eval[where e = 3]) (simp_all add: rhe_def Let_def)

lemma round4_76_3:
  "py_round4 (Finite (5369135180755763 / 70368744177664)) = Finite (5369135180755763 / 70368744177664)"
  by (simp add: rhe_def Let_def, subst fl_eval[where e = 6]) (simp_all add: rhe_def Let_def)

lemmas example_values =
  add_8_step add_8_3_step add_76_step add_76_3_step round4_8 round4_76 round4_8_3 round4_76_3

lemma example_grid:
  "generate_grid
     \<lparr>min_lat = Finite 8, max_lat = Finite (2336242306698445 / 281474976710656),
      min_lon = Finite 76, max_lon = Finite (5369135180755763 / 70368744177664)\<rparr>
     (Finite (5404319552844595 / 18014398509481984)) =
   Some [(Finite 8, Finite 76),
         (Finite 8, Finite (5369135180755763 / 70368744177664)),
         (Finite (2336242306698445 / 281474976710656), Finite 76),
         (Finite (2336242306698445 / 281474976710656), Finite (5369135180755763 / 70368744177664))]"
  by (simp add: generate_grid_def lat_loop.simps lon_loop.simps example_values
        del: py_add.simps py_round4.simps)


section \<open>Termination of the grid generator\<close>

lemma generate_grid_returns:
  assumes "is_float (min_lat b)" and "is_float (min_lon b)"
    and "no_absorption (min_lat b) (max_lat b) step"
    and "no_absorption (min_lon b) (max_lon b) step"
  shows "\<exists>lats lons. sweeps (max_lat b) step (min_lat b) lats \<and>
            sweeps (max_lon b) step (min_lon b) lons \<and>
            generate_grid b step = Some (if lats = [] then [] else product_grid lats lons)"
proof -
  have "\<exists>lats. sweeps (max_lat b) step (min_lat b) lats"
    using assms(3,1)
  proof (rule sweeps_exists)
    assume "py_le (min_lat b) (max_lat b)"
    then have "min_lat b \<noteq> NaN" by (auto dest: py_le_not_nan)
    then show "py_le (min_lat b) (min_lat b)" by (rule py_le_refl)
  qed
  then obtain lats where lats: "sweeps (max_lat b) step (min_lat b) lats" ..
  have "\<exists>lons. sweeps (max_lon b) step (min_lon b) lons"
    using assms(4,2)
  proof (rule sweeps_exists)
    assume "py_le (min_lon b) (max_lon b)"
    then have "min_lon b \<noteq> NaN" by (auto dest: py_le_not_nan)
    then show "py_le (min_lon b) (min_lon b)" by (rule py_le_refl)
  qed
  then obtain lons where lons: "sweeps (max_lon b) step (min_lon b) lons" ..
  have "generate_grid b step = Some (if lats = [] then [] else product_grid lats lons)"
    unfolding generate_grid_product using lats lons by (intro exI[of _ lats]) auto
  with lats lons show ?thesis by blast
qed

text \<open>A step that the first latitude absorbs keeps the outer loop at that latitude for ever.\<close>

lemma absorbed_step_never_returns:
  assumes "py_le (min_lat b) (max_lat b)" and "py_add (min_lat b) step = min_lat b"
  shows "generate_grid b step = None"
proof (cases "generate_grid b step")
  case (Some pts)
  then obtain lats where "sweeps (max_lat b) step (min_lat b) lats"
    unfolding generate_grid_product by blast
  then have "\<not> py_le (min_lat b) (max_lat b)" using assms(2) by (rule sweeps_moves)
  with assms(1) show ?thesis by simp
qed simp

lemma add_8_tiny: "py_add (Finite 8) (Finite (1 / 1152921504606846976)) = Finite 8"
  by (simp, subst fl_eval[where e = 3]) (simp_all add: rhe_def Let_def)

text \<open>
  Claim C4, as the code has it. The generator returns whenever the step is not absorbed:
  adding it to any float between \<open>min_lat\<close> and \<open>max_lat\<close>, and to any float between
  \<open>min_lon\<close> and \<open>max_lon\<close>, gives a larger float.
\<close>

theorem generate_grid_terminates:
  assumes "is_float (min_lat b)" and "is_float (min_lon b)"
    and "no_absorption (min_lat b) (max_lat b) step"
    and "no_absorption (min_lon b) (max_lon b) step"
  shows "\<exists>points. generate_grid b step = Some points"
  using generate_grid_returns[OF assms] by blast

theorem generate_grid_terminates_witness:
  "is_float (Finite 8) \<and> is_float (Finite 76) \<and>
   no_absorption (Finite 8) (Finite (27 / 2)) GRID_STEP \<and>
   no_absorption (Finite 76) (Finite (5650610157466419 / 70368744177664)) GRID_STEP \<and>
   (\<exists>points. generate_grid
      \<lparr>min_lat = Finite 8, max_lat = Finite (27 / 2),
       min_lon = Finite 76, max_lon = Finite (5650610157466419 / 70368744177664)\<rparr>
      GRID_STEP = Some points)"
proof -
  have f: "is_float (Finite 8)" "is_float (Finite 76)" by (simp_all add: float_8 float_76)
  have a: "no_absorption (Finite 8) (Finite (27 / 2)) GRID_STEP"
    unfolding GRID_STEP_value by (rule no_absorption_small) simp_all
  have c: "no_absorption (Finite 76) (Finite (5650610157466419 / 70368744177664)) GRID_STEP"
    unfolding GRID_STEP_value by (rule no_absorption_small) simp_all
  show ?thesis
    using f a c
      generate_grid_terminates
        [of "\<lparr>min_lat = Finite 8, max_lat = Finite (27 / 2),
              min_lon = Finite 76, max_lon = Finite (5650610157466419 / 70368744177664)\<rparr>"
            GRID_STEP]
    by simp
qed

text \<open>
  Claim C4 as stated fails: on the valid box \<open>[8, 8] \<times> [76, 76]\<close> with the step
  \<open>2^-60 > 0\<close> the generator never returns, since \<open>8.0 + 2^-60 = 8.0\<close> and
  \<open>76.0 + 2^-60 = 76.0\<close> in floating point.
\<close>

theorem tiny_step_never_returns:
  "py_le (Finite 8) (Finite 8) \<and> py_le (Finite 76) (Finite 76) \<and>
   py_lt (Finite 0) (Finite (1 / 2 ^ 60)) \<and>
   generate_grid \<lparr>min_lat = Finite 8, max_lat = Finite 8, min_lon = Finite 76, max_lon = Finite 76\<rparr>
     (Finite (1 / 2 ^ 60)) = None"
proof -
  have "generate_grid \<lparr>min_lat = Finite 8, max_lat = Finite 8, min_lon = Finite 76, max_lon = Finite 76\<rparr>
     (Finite (1 / 2 ^ 60)) = None"
    by (rule absorbed_step_never_returns) (simp_all add: add_8_tiny del: py_add.simps)
  then show ?thesis by simp
qed


section \<open>The first point, and the degenerate grid\<close>

lemma product_grid_Cons:
  "product_grid (la # lats) lons =
     map (\<lambda>lon. (py_round4 la, py_round4 lon)) lons @ product_grid lats lons"
  by (simp add: product_grid_def)

lemma product_grid_Nil [simp]: "product_grid [] lons = []"
  by (simp add: product_grid_def)

lemma sweeps_first:
  assumes "sweeps hi step x xs" and "py_le x hi"
  obtains xs' where "xs = x # xs'" and "sweeps hi step (py_add x step) xs'"
  using assms by (cases rule: sweeps.cases) simp_all

lemma sweeps_past:
  assumes "sweeps hi step x xs" and "\<not> py_le x hi"
  shows "xs = []"
  using assms by (cases rule: sweeps.cases) simp_all

text \<open>
  Claim C5, as the code has it. For a valid box of floats and a step that is not
  absorbed, the generator returns at least one point, and the first point is the minimum
  corner, rounded. When the step takes both coordinates past the box
  (\<open>min_lat + step > max_lat\<close> and \<open>min_lon + step > max_lon\<close>, as the program computes
  them), the result is that single point.
\<close>

theorem generate_grid_first_point:
  assumes "py_le (min_lat b) (max_lat b)" and "py_le (min_lon b) (max_lon b)"
    and "is_float (min_lat b)" and "is_float (min_lon b)"
    and "no_absorption (min_lat b) (max_lat b) step"
    and "no_absorption (min_lon b) (max_lon b) step"
  shows "\<exists>points. generate_grid b step = Some points \<and> points \<noteq> [] \<and>
           hd points = (py_round4 (min_lat b), py_round4 (min_lon b)) \<and>
           (py_lt (max_lat b) (py_add (min_lat b) step) \<and>
            py_lt (max_lon b) (py_add (min_lon b) step) \<longrightarrow>
              points = [(py_round4 (min_lat b), py_round4 (min_lon b))])"
proof -
  from generate_grid_returns[OF assms(3-6)] obtain lats lons
    where lats: "sweeps (max_lat b) step (min_lat b) lats"
      and lons: "sweeps (max_lon b) step (min_lon b) lons"
      and g: "generate_grid b step = Some (if lats = [] then [] else product_grid lats lons)"
    by blast
  from lats assms(1) obtain lats' where la: "lats = min_lat b # lats'"
    and lats': "sweeps (max_lat b) step (py_add (min_lat b) step) lats'"
    by (rule sweeps_first)
  from lons assms(2) obtain lons' where lo: "lons = min_lon b # lons'"
    and lons': "sweeps (max_lon b) step (py_add (min_lon b) step) lons'"
    by (rule sweeps_first)
  have g': "generate_grid b step = Some (product_grid lats lons)" using g la by simp
  have ne: "product_grid lats lons \<noteq> []" by (simp add: la lo product_grid_Cons)
  have h: "hd (product_grid lats lons) = (py_round4 (min_lat b), py_round4 (min_lon b))"
    by (simp add: la lo product_grid_Cons)
  have one: "product_grid lats lons = [(py_round4 (min_lat b), py_round4 (min_lon b))]"
    if "py_lt (max_lat b) (py_add (min_lat b) step)"
      and "py_lt (max_lon b) (py_add (min_lon b) step)"
  proof -
    have "lats' = []" using lats' py_lt_not_le[OF that(1)] by (rule sweeps_past)
    moreover have "lons' = []" using lons' py_lt_not_le[OF that(2)] by (rule sweeps_past)
    ultimately show ?thesis by (simp add: la lo product_grid_Cons)
  qed
  from g' ne h one show ?thesis by blast
qed

theorem generate_grid_first_point_witness:
  "py_le (Finite 8) (Finite (33 / 4)) \<and> py_le (Finite 76) (Finite (305 / 4)) \<and>
   is_float (Finite 8) \<and> is_float (Finite 76) \<and>
   no_absorption (Finite 8) (Finite (33 / 4)) GRID_STEP \<and>
   no_absorption (Finite 76) (Finite (305 / 4)) GRID_STEP \<and>
   py_lt (Finite (33 / 4)) (py_add (Finite 8) GRID_STEP) \<and>
   py_lt (Finite (305 / 4)) (py_add (Finite 76) GRID_STEP) \<and>
   generate_grid
     \<lparr>min_lat = Finite 8, max_lat = Finite (33 / 4), min_lon = Finite 76, max_lon = Finite (305 / 4)\<rparr>
     GRID_STEP = Some [(Finite 8, Finite 76)]"
proof -
  have f: "is_float (Finite 8)" "is_float (Finite 76)" by (simp_all add: float_8 float_76)
  have a: "no_absorption (Finite 8) (Finite (33 / 4)) GRID_STEP"
    unfolding GRID_STEP_value by (rule no_absorption_small) simp_all
  have c: "no_absorption (Finite 76) (Finite (305 / 4)) GRID_STEP"
    unfolding GRID_STEP_value by (rule no_absorption_small) simp_all
  have p: "py_lt (Finite (33 / 4)) (py_add (Finite 8) GRID_STEP)"
    "py_lt (Finite (305 / 4)) (py_add (Finite 76) GRID_STEP)"
    unfolding GRID_STEP_value by (simp_all add: example_values del: py_add.simps)
  show ?thesis
    using f a c p
      generate_grid_first_point
        [of "\<lparr>min_lat = Finite 8, max_lat = Finite (33 / 4),
              min_lon = Finite 76, max_lon = Finite (305 / 4)\<rparr>" GRID_STEP]
    by (auto simp add: example_values simp del: py_add.simps py_round4.simps)
qed

lemma float_0 [simp]: "fl 0 = Finite 0"
  by (simp add: fl_def)

lemma float_3_4: "fl (3 / 4) = Finite (3 / 4)"
  by (subst fl_eval[where e = "- 1"]) (simp_all add: rhe_def Let_def)

lemma float_3_2: "fl (3 / 2) = Finite (3 / 2)"
  by (subst fl_eval[where e = 0]) (simp_all add: rhe_def Let_def)

text \<open>
  Claim C5 as stated fails: on the box \<open>[0, 1] \<times> [0, 0.5]\<close> the step \<open>0.75\<close> exceeds
  the extent in longitude, and the generator returns two points.
\<close>

theorem wide_step_in_one_dimension:
  "generate_grid
     \<lparr>min_lat = Finite 0, max_lat = Finite 1, min_lon = Finite 0, max_lon = Finite (1 / 2)\<rparr>
     (Finite (3 / 4)) = Some [(Finite 0, Finite 0), (Finite (3 / 4), Finite 0)]"
  by (simp add: generate_grid_def lat_loop.simps lon_loop.simps float_3_4 float_3_2
        rhe_def Let_def)


section \<open>Where the points lie\<close>

lemma rounds_to_py_round4: "rounds_to x (py_round4 x)"
proof (cases x)
  case (Finite a)
  have "\<bar>of_int (rhe (a * 10000)) - a * 10000\<bar> \<le> 1 / 2" by (rule rhe_error)
  then have "\<bar>of_int (rhe (a * 10000)) - a * 10000\<bar> / 10000 \<le> (1 / 2) / 10000"
    by (simp only: divide_le_cancel) simp
  moreover have "\<bar>of_int (rhe (a * 10000)) / 10000 - a\<bar> = \<bar>of_int (rhe (a * 10000)) - a * 10000\<bar> / 10000"
    by (simp add: abs_if field_simps)
  ultimately have "\<bar>of_int (rhe (a * 10000)) / 10000 - a\<bar> \<le> 1 / 20000" by simp
  then show ?thesis
    unfolding rounds_to_def Finite by (auto intro!: exI[of _ "rhe (a * 10000)"])
qed (simp_all add: rounds_to_def)

lemma product_grid_member:
  "p \<in> set (product_grid lats lons) \<longleftrightarrow>
     (\<exists>lat \<in> set lats. \<exists>lon \<in> set lons. p = (py_round4 lat, py_round4 lon))"
  by (auto simp add: product_grid_def)

text \<open>
  Claim C7. Every point of the grid of a box of floats, for a step \<open>> 0\<close>, is the
  rounding to 4 decimal digits of a point \<open>(lat, lon)\<close> of the rectangle
  \<open>[min_lat, max_lat] \<times> [min_lon, max_lon]\<close>: each coordinate is the double nearest to
  a multiple of \<open>10^-4\<close> within \<open>0.00005\<close> of the coordinate swept.
\<close>

theorem points_within_box:
  assumes "is_float (min_lat b)" and "is_float (min_lon b)" and "py_lt (Finite 0) step"
    and "generate_grid b step = Some points" and "p \<in> set points"
  shows "\<exists>lat lon. p = (py_round4 lat, py_round4 lon) \<and>
           py_le (min_lat b) lat \<and> py_le lat (max_lat b) \<and>
           py_le (min_lon b) lon \<and> py_le lon (max_lon b) \<and>
           rounds_to lat (fst p) \<and> rounds_to lon (snd p)"
proof -
  from assms(4) obtain lats where lats: "sweeps (max_lat b) step (min_lat b) lats"
    and c: "if lats = [] then points = []
            else \<exists>lons. sweeps (max_lon b) step (min_lon b) lons \<and> points = product_grid lats lons"
    unfolding generate_grid_product by blast
  from assms(5) c obtain lons where lons: "sweeps (max_lon b) step (min_lon b) lons"
    and pts: "points = product_grid lats lons"
    by (cases "lats = []") auto
  from assms(5) obtain lat lon where m: "lat \<in> set lats" "lon \<in> set lons"
    and p: "p = (py_round4 lat, py_round4 lon)"
    unfolding pts product_grid_member by blast
  have "py_le (min_lat b) lat \<and> py_le lat (max_lat b)"
    using lats assms(1,3) m(1) by (rule sweeps_bounds)
  moreover have "py_le (min_lon b) lon \<and> py_le lon (max_lon b)"
    using lons assms(2,3) m(2) by (rule sweeps_bounds)
  ultimately show ?thesis
    using p rounds_to_py_round4 by auto
qed

theorem points_within_box_witness:
  "is_float (Finite 8) \<and> is_float (Finite 76) \<and> py_lt (Finite 0) GRID_STEP \<and>
   generate_grid
     \<lparr>min_lat = Finite 8, max_lat = Finite (2336242306698445 / 281474976710656),
      min_lon = Finite 76, max_lon = Finite (5369135180755763 / 70368744177664)\<rparr>
     GRID_STEP =
   Some [(Finite 8, Finite 76),
         (Finite 8, Finite (5369135180755763 / 70368744177664)),
         (Finite (2336242306698445 / 281474976710656), Finite 76),
         (Finite (2336242306698445 / 281474976710656), Finite (5369135180755763 / 70368744177664))] \<and>
   (\<exists>lat lon. (Finite (2336242306698445 / 281474976710656), Finite 76) = (py_round4 lat, py_round4 lon) \<and>
      py_le (Finite 8) lat \<and> py_le lat (Finite (2336242306698445 / 281474976710656)) \<and>
      py_le (Finite 76) lon \<and> py_le lon (Finite (5369135180755763 / 70368744177664)) \<and>
      rounds_to lat (Finite (2336242306698445 / 281474976710656)) \<and> rounds_to lon (Finite 76))"
proof -
  have f: "is_float (Finite 8)" "is_float (Finite 76)" by (simp_all add: float_8 float_76)
  have s: "py_lt (Finite 0) GRID_STEP" by (simp add: GRID_STEP_value)
  note g = example_grid[folded GRID_STEP_value]
  show ?thesis
    using f s g
      points_within_box
        [of "\<lparr>min_lat = Finite 8, max_lat = Finite (2336242306698445 / 281474976710656),
              min_lon = Finite 76, max_lon = Finite (5369135180755763 / 70368744177664)\<rparr>"
            GRID_STEP
            "[(Finite 8, Finite 76),
              (Finite 8, Finite (5369135180755763 / 70368744177664)),
              (Finite (2336242306698445 / 281474976710656), Finite 76),
              (Finite (2336242306698445 / 281474976710656), Finite (5369135180755763 / 70368744177664))]"
            "(Finite (2336242306698445 / 281474976710656), Finite 76)"]
    by simp
qed


section \<open>The order of the points\<close>










section \<open>Inverted boxes\<close>

lemma product_grid_no_columns [simp]: "product_grid lats [] = []"
  by (induction lats) (simp_all add: product_grid_def)

lemma inverted_box_grid:
  assumes "py_lt (max_lat b) (min_lat b) \<or>
           (py_lt (max_lon b) (min_lon b) \<and> is_float (min_lat b) \<and>
            no_absorption (min_lat b) (max_lat b) step)"
  shows "generate_grid b step = Some []"
  using assms
proof
  assume "py_lt (max_lat b) (min_lat b)"
  then have "\<not> py_le (min_lat b) (max_lat b)" by (rule py_lt_not_le)
  then have "sweeps (max_lat b) step (min_lat b) []" by (rule sweeps.stop)
  then show ?thesis unfolding generate_grid_product by (intro exI[of _ "[]"]) simp
next
  assume a: "py_lt (max_lon b) (min_lon b) \<and> is_float (min_lat b) \<and>
            no_absorption (min_lat b) (max_lat b) step"
  have "\<exists>lats. sweeps (max_lat b) step (min_lat b) lats"
  proof (rule sweeps_exists)
    show "no_absorption (min_lat b) (max_lat b) step" using a by simp
    show "is_float (min_lat b)" using a by simp
    assume "py_le (min_lat b) (max_lat b)"
    then have "min_lat b \<noteq> NaN" by (auto dest: py_le_not_nan)
    then show "py_le (min_lat b) (min_lat b)" by (rule py_le_refl)
  qed
  then obtain lats where lats: "sweeps (max_lat b) step (min_lat b) lats" ..
  from a have "\<not> py_le (min_lon b) (max_lon b)" by (auto dest: py_lt_not_le)
  then have lons: "sweeps (max_lon b) step (min_lon b) []" by (rule sweeps.stop)
  show ?thesis
    unfolding generate_grid_product using lats lons
    by (intro exI[of _ lats]) (auto intro: exI[of _ "[]"])
qed

section \<open>The scan loop\<close>

lemma pacing_simps [simp]:
  "pacing (ApiRequest a b c d)" "pacing (Sleep t)" "\<not> pacing (PrintError e)"
  "\<not> pacing (PrintProgress s i n a b)"
  by (simp_all add: pacing_def)

text \<open>
  Claim C9. In the scan of a region, every request to the directory is followed by the
  pause of 0.4 seconds before the next request (and before the loop ends), whether the
  \<open>try\<close> block at that point raised or not: the requests and pauses of the loop, in
  order, are one request and one pause for each grid point.
\<close>

theorem pause_after_every_point:
  "filter pacing (snd (scan_points w k s n i ps rows)) =
     concat (map (\<lambda>p. [ApiRequest (fst p) (snd p) CATEGORY RADIUS, Sleep (2 / 5)]) ps)"
proof (induction ps arbitrary: i rows)
  case Nil
  show ?case by simp
next
  case (Cons p ps)
  show ?case
    by (simp add: Let_def Cons.IH split: option.split)
qed

section \<open>The fetch\<close>

text \<open>
  Claim C3, as the code has it. \<open>fetch_businesses\<close> raises in exactly two cases: the
  request itself fails, or the body of the response is not JSON. The status code of the
  response is never looked at: a response with any status and a JSON body is returned to
  the caller as an ordinary result.
\<close>

theorem fetch_businesses_raises:
  "(fetch_businesses w k i lat lon = Inl RequestException \<longleftrightarrow>
      directory w k i lat lon CATEGORY RADIUS = NetworkFailure) \<and>
   (fetch_businesses w k i lat lon = Inl JSONDecodeError \<longleftrightarrow>
      (\<exists>status. directory w k i lat lon CATEGORY RADIUS = Reply status None)) \<and>
   (fetch_businesses w k i lat lon = Inr data \<longleftrightarrow>
      (\<exists>status. directory w k i lat lon CATEGORY RADIUS = Reply status (Some data)))"
  by (auto simp add: fetch_businesses_def split: http_reply.splits option.splits)

text \<open>
  Claim C3 as stated fails: a response with status 500 whose body is a JSON object
  is returned without an exception, and the scan of that point ends with no row and no
  diagnostic.
\<close>

theorem status_500_is_not_an_error:
  "directory world_status_500 0 0 (Finite 8) (Finite 76) CATEGORY RADIUS =
     Reply 500 (Some (JDict [(''error'', JStr ''Internal Server Error'')])) \<and>
   fetch_businesses world_status_500 0 0 (Finite 8) (Finite 76) =
     Inr (JDict [(''error'', JStr ''Internal Server Error'')]) \<and>
   scan_points world_status_500 0 ''Tamil Nadu'' 1 0 [(Finite 8, Finite 76)] [] =
     ([], [PrintProgress ''Tamil Nadu'' 1 1 (Finite 8) (Finite 76),
           ApiRequest (Finite 8) (Finite 76) CATEGORY RADIUS, Sleep (2 / 5)])"
  by (simp add: world_status_500_def fetch_businesses_def try_point_def collect_def)

section \<open>The list field of a response\<close>

text \<open>
  Claim C8, as the code has it. When the response is an object whose field \<open>data\<close> is
  absent or is the empty list, the \<open>try\<close> block adds no row and raises nothing. When
  the field is \<open>null\<close>, a boolean or a number, iterating it raises TypeError inside the
  \<open>try\<close> block: no row is added and the exception is the diagnostic of that point.
\<close>

theorem list_field_absent_or_malformed:
  "(map_of kvs ''data'' = None \<or> map_of kvs ''data'' = Some (JList []) \<longrightarrow>
      collect s lat lon (JDict kvs) rows = (rows, None)) \<and>
   (map_of kvs' ''data'' = Some v \<and> v \<in> {JNull} \<union> range JBool \<union> range JInt \<union> range JFloat \<longrightarrow>
      collect s lat lon (JDict kvs') rows = (rows, Some TypeError))"
  by (auto simp add: collect_def)

theorem list_field_absent_or_malformed_witness:
  "(map_of [(''status'', JStr ''ok'')] ''data'' = None \<or>
    map_of [(''status'', JStr ''ok'')] ''data'' = Some (JList [])) \<and>
   collect ''Tamil Nadu'' (Finite 8) (Finite 76) (JDict [(''status'', JStr ''ok'')]) [] = ([], None) \<and>
   map_of [(''data'', JInt 0)] ''data'' = Some (JInt 0) \<and>
   JInt 0 \<in> {JNull} \<union> range JBool \<union> range JInt \<union> range JFloat \<and>
   collect ''Tamil Nadu'' (Finite 8) (Finite 76) (JDict [(''data'', JInt 0)]) [] =
     ([], Some TypeError)"
  using list_field_absent_or_malformed
          [of "[(''status'', JStr ''ok'')]" "''Tamil Nadu''" "Finite 8" "Finite 76" "[]"
              "[(''data'', JInt 0)]" "JInt 0"]
  by simp

text \<open>
  Claim C8 as stated fails: for the response \<open>{"data": null}\<close> the scan of the point
  records a diagnostic.
\<close>

theorem null_list_field_is_logged:
  "scan_points world_data_null 0 ''Tamil Nadu'' 1 0 [(Finite 8, Finite 76)] [] =
     ([], [PrintProgress ''Tamil Nadu'' 1 1 (Finite 8) (Finite 76),
           ApiRequest (Finite 8) (Finite 76) CATEGORY RADIUS,
           PrintError TypeError, Sleep (2 / 5)])"
  by (simp add: world_data_null_def fetch_businesses_def try_point_def collect_def)


section \<open>An inverted box from the geocoder\<close>

lemma get_state_bbox_unvalidated:
  assumes "geocoder w k (s @ '', India'') = Reply status (Some (geo_body [a0, a1, a2, a3]))"
    and "float_of_str w a0 = Some f0" and "float_of_str w a1 = Some f1"
    and "float_of_str w a2 = Some f2" and "float_of_str w a3 = Some f3"
  shows "get_state_bbox w k s =
           Inr (Some \<lparr>min_lat = f0, max_lat = f1, min_lon = f2, max_lon = f3\<rparr>)"
  by (simp add: get_state_bbox_def geo_body_def and_then_def assms)

lemma run_state_empty_grid:
  assumes "get_state_bbox w k s = Inr (Some b)" and "generate_grid b GRID_STEP = Some []"
  shows "run_state w k s =
           Some ([PrintProcessing s, GeoRequest (s @ '', India''),
                  PrintGridPoints 0, PrintNoData s], None)"
  by (simp add: run_state_def assms report_def)

text \<open>
  Claim C10, as the code has it. The resolver turns the four strings of the provider
  into floats and returns them as the box without comparing them. On a box with
  \<open>min_lat > max_lat\<close> the generator returns the empty list at once; on a box with only
  \<open>min_lon > max_lon\<close> it returns the empty list once the sweep of the latitudes ends,
  which it does when the step is not absorbed between \<open>min_lat\<close> and \<open>max_lat\<close>. With
  an empty grid the region ends with no request to the directory and no report.
\<close>

theorem inverted_box:
  assumes "geocoder w k (s @ '', India'') = Reply status (Some (geo_body [a0, a1, a2, a3]))"
    and "float_of_str w a0 = Some f0" and "float_of_str w a1 = Some f1"
    and "float_of_str w a2 = Some f2" and "float_of_str w a3 = Some f3"
    and "py_lt f1 f0 \<or> (py_lt f3 f2 \<and> is_float f0 \<and> no_absorption f0 f1 step)"
  shows "get_state_bbox w k s =
           Inr (Some \<lparr>min_lat = f0, max_lat = f1, min_lon = f2, max_lon = f3\<rparr>) \<and>
         generate_grid \<lparr>min_lat = f0, max_lat = f1, min_lon = f2, max_lon = f3\<rparr> step = Some [] \<and>
         (step = GRID_STEP \<longrightarrow>
            run_state w k s =
              Some ([PrintProcessing s, GeoRequest (s @ '', India''),
                     PrintGridPoints 0, PrintNoData s], None))"
proof -
  let ?b = "\<lparr>min_lat = f0, max_lat = f1, min_lon = f2, max_lon = f3\<rparr>"
  have r: "get_state_bbox w k s = Inr (Some ?b)"
    using assms(1-5) by (rule get_state_bbox_unvalidated)
  have g: "generate_grid ?b step = Some []"
    by (rule inverted_box_grid) (use assms(6) in simp)
  from r g show ?thesis by (auto intro: run_state_empty_grid)
qed

theorem inverted_box_witness:
  "geocoder world_inverted 0 (''Tamil Nadu'' @ '', India'') =
     Reply 200 (Some (geo_body [''8.3'', ''8.0'', ''76.0'', ''76.3''])) \<and>
   float_of_str world_inverted ''8.3'' = Some (Finite (2336242306698445 / 281474976710656)) \<and>
   float_of_str world_inverted ''8.0'' = Some (Finite 8) \<and>
   float_of_str world_inverted ''76.0'' = Some (Finite 76) \<and>
   float_of_str world_inverted ''76.3'' = Some (Finite (5369135180755763 / 70368744177664)) \<and>
   py_lt (Finite 8) (Finite (2336242306698445 / 281474976710656)) \<and>
   get_state_bbox world_inverted 0 ''Tamil Nadu'' =
     Inr (Some \<lparr>min_lat = Finite (2336242306698445 / 281474976710656), max_lat = Finite 8,
                min_lon = Finite 76, max_lon = Finite (5369135180755763 / 70368744177664)\<rparr>) \<and>
   generate_grid
     \<lparr>min_lat = Finite (2336242306698445 / 281474976710656), max_lat = Finite 8,
      min_lon = Finite 76, max_lon = Finite (5369135180755763 / 70368744177664)\<rparr>
     GRID_STEP = Some [] \<and>
   run_state world_inverted 0 ''Tamil Nadu'' =
     Some ([PrintProcessing ''Tamil Nadu'', GeoRequest ''Tamil Nadu, India'',
            PrintGridPoints 0, PrintNoData ''Tamil Nadu''], None)"
proof -
  have 1: "geocoder world_inverted 0 (''Tamil Nadu'' @ '', India'') =
     Reply 200 (Some (geo_body [''8.3'', ''8.0'', ''76.0'', ''76.3'']))"
    by (simp add: world_inverted_def)
  have 2: "float_of_str world_inverted ''8.3'' = Some (Finite (2336242306698445 / 281474976710656))"
    "float_of_str world_inverted ''8.0'' = Some (Finite 8)"
    "float_of_str world_inverted ''76.0'' = Some (Finite 76)"
    "float_of_str world_inverted ''76.3'' = Some (Finite (5369135180755763 / 70368744177664))"
    by (simp_all add: world_inverted_def float_table_def)
  have 3: "py_lt (Finite 8) (Finite (2336242306698445 / 281474976710656))" by simp
  show ?thesis
    using 1 2 3
      inverted_box[of world_inverted 0 "''Tamil Nadu''" 200
        "''8.3''" "''8.0''" "''76.0''" "''76.3''"
        "Finite (2336242306698445 / 281474976710656)" "Finite 8" "Finite 76"
        "Finite (5369135180755763 / 70368744177664)" GRID_STEP]
    by simp
qed

text \<open>
  Claim C10 as stated fails: on the box \<open>[8, 8] \<times> [77, 76]\<close>, inverted in longitude,
  with the step \<open>2^-60 > 0\<close> the generator never returns: no point is added, and the
  latitude stays at \<open>8.0\<close>.
\<close>

theorem inverted_longitudes_tiny_step:
  "py_lt (Finite 76) (Finite 77) \<and> py_lt (Finite 0) (Finite (1 / 2 ^ 60)) \<and>
   generate_grid \<lparr>min_lat = Finite 8, max_lat = Finite 8, min_lon = Finite 77, max_lon = Finite 76\<rparr>
     (Finite (1 / 2 ^ 60)) = None"
proof -
  have "generate_grid \<lparr>min_lat = Finite 8, max_lat = Finite 8, min_lon = Finite 77, max_lon = Finite 76\<rparr>
     (Finite (1 / 2 ^ 60)) = None"
    by (rule absorbed_step_never_returns) (simp_all add: add_8_tiny del: py_add.simps)
  then show ?thesis by simp
qed


section \<open>Failures at single points\<close>






lemma is_request_simps [simp]:
  "is_request (ApiRequest a b c d)" "\<not> is_request (Sleep t)" "\<not> is_request (PrintError e)"
  "\<not> is_request (PrintProgress s i n a b)" "\<not> is_request (PrintProcessing s)"
  "\<not> is_request (GeoRequest q)" "\<not> is_request (PrintGridPoints n)"
  "\<not> is_request (EmailSend s rows)" "\<not> is_request (PrintEmailSent s)"
  "\<not> is_request (PrintNoData s)"
  by (simp_all add: is_request_def)










section \<open>Failures of a whole region\<close>

lemma one_point_grid:
  "generate_grid \<lparr>min_lat = Finite 8, max_lat = Finite 8, min_lon = Finite 76, max_lon = Finite 76\<rparr>
     GRID_STEP = Some [(Finite 8, Finite 76)]"
  unfolding GRID_STEP_value
  by (simp add: generate_grid_def lat_loop.simps lon_loop.simps example_values
        del: py_add.simps py_round4.simps)

lemma one_point_bbox:
  "get_state_bbox world_smtp_down k s =
     Inr (Some \<lparr>min_lat = Finite 8, max_lat = Finite 8, min_lon = Finite 76, max_lon = Finite 76\<rparr>)"
  by (simp add: get_state_bbox_def world_smtp_down_def geo_body_def and_then_def float_table_def)

text \<open>
  Claim C1 on the code. An exception raised while the box of a region is resolved, and
  an exception raised while the report of a region is sent, are not caught: they leave
  \<open>run_scrape\<close>, and the regions after that one are never processed. In both runs
  below the second region, Karnataka, is not reached.
\<close>

theorem region_errors_end_the_run:
  "run_scrape world_geocoder_down =
     Some ([PrintProcessing ''Tamil Nadu'', GeoRequest ''Tamil Nadu, India''],
           Some RequestException) \<and>
   run_scrape world_smtp_down =
     Some ([PrintProcessing ''Tamil Nadu'', GeoRequest ''Tamil Nadu, India'', PrintGridPoints 1,
            PrintProgress ''Tamil Nadu'' 1 1 (Finite 8) (Finite 76),
            ApiRequest (Finite 8) (Finite 76) ''stationery'' 20, Sleep (2 / 5),
            EmailSend ''Tamil Nadu''
              [make_row ''Tamil Nadu'' (Finite 8) (Finite 76) [(''name'', JStr ''Shop'')]]],
           Some SMTPException)"
proof
  show "run_scrape world_geocoder_down =
     Some ([PrintProcessing ''Tamil Nadu'', GeoRequest ''Tamil Nadu, India''],
           Some RequestException)"
    by (simp add: run_scrape_def STATES_def run_state_def get_state_bbox_def
          world_geocoder_down_def)
  have "run_state world_smtp_down 0 ''Tamil Nadu'' =
     Some ([PrintProcessing ''Tamil Nadu'', GeoRequest ''Tamil Nadu, India'', PrintGridPoints 1,
            PrintProgress ''Tamil Nadu'' 1 1 (Finite 8) (Finite 76),
            ApiRequest (Finite 8) (Finite 76) ''stationery'' 20, Sleep (2 / 5),
            EmailSend ''Tamil Nadu''
              [make_row ''Tamil Nadu'' (Finite 8) (Finite 76) [(''name'', JStr ''Shop'')]]],
           Some SMTPException)"
    unfolding run_state_def one_point_bbox
    by (simp add: one_point_grid)
       (simp add: try_point_def fetch_businesses_def collect_def world_smtp_down_def
          shop_body_def report_def CATEGORY_def RADIUS_def)
  then show "run_scrape world_smtp_down =
     Some ([PrintProcessing ''Tamil Nadu'', GeoRequest ''Tamil Nadu, India'', PrintGridPoints 1,
            PrintProgress ''Tamil Nadu'' 1 1 (Finite 8) (Finite 76),
            ApiRequest (Finite 8) (Finite 76) ''stationery'' 20, Sleep (2 / 5),
            EmailSend ''Tamil Nadu''
              [make_row ''Tamil Nadu'' (Finite 8) (Finite 76) [(''name'', JStr ''Shop'')]]],
           Some SMTPException)"
    by (simp add: run_scrape_def STATES_def)
qed

end
